theory Spec2Isabelle
  imports Main "HOL-Library.Word"
begin

section \<open>Values, errors and outcomes\<close>

text \<open>
  The JavaScript values the workflow inspects for truthiness: prompt answers, the
  value a service call resolves to, the \<open>isValid\<close> variable of \<open>askForPushCerts\<close>.
\<close>

datatype jsval = VUndefined | VNull | VBool bool | VNum int | VStr string | VObject

fun truthy :: "jsval \<Rightarrow> bool" where
  "truthy VUndefined = False"
| "truthy VNull = False"
| "truthy (VBool b) = b"
| "truthy (VNum n) = (n \<noteq> 0)"
| "truthy (VStr s) = (s \<noteq> [])"
| "truthy VObject = True"

text \<open>
  An optional string field (\<open>appleId?: string\<close>, \<open>bundleIdentifierIOS\<close>): absent, or
  a string; \<open>!!x\<close> is false for the absent field and for the empty string.
\<close>

fun truthyField :: "string option \<Rightarrow> bool" where
  "truthyField None = False"
| "truthyField (Some s) = (s \<noteq> [])"

fun strOf :: "jsval \<Rightarrow> string option" where
  "strOf (VStr s) = Some s"
| "strOf _ = None"

text \<open>
  Exceptions as values. \<open>XDLError\<close> is the error class of the service library, the only
  one with \<open>isXDLError\<close> set; \<open>Foreign\<close> is any other exception (network fault, file
  system error), its payload opaque.
\<close>

datatype error =
    XDLError string string
  | CommandError string string
  | Foreign string

definition INVALID_OPTIONS :: string where
  "INVALID_OPTIONS = ''INVALID_OPTIONS''"

definition CREDENTIAL_ERROR :: string where
  "CREDENTIAL_ERROR = ''CREDENTIAL_ERROR''"

text \<open>
  Modelled from the spec: the class \<open>CommandError\<close> (\<open>src/CommandError.js\<close>) is
  not among the sources. The spec has the certificate flow surface the specific
  "certificate not present in developer portal" error, which the outer handler of
  \<open>askForCerts\<close> would overwrite if a \<open>CommandError\<close> carried \<open>isXDLError\<close>; so
  it does not.
\<close>

fun isXDLError :: "error \<Rightarrow> bool" where
  "isXDLError (XDLError c m) = True"
| "isXDLError (CommandError c m) = False"
| "isXDLError (Foreign x) = False"

fun code :: "error \<Rightarrow> string" where
  "code (XDLError c m) = c"
| "code (CommandError c m) = c"
| "code (Foreign x) = []"

fun message :: "error \<Rightarrow> string" where
  "message (XDLError c m) = m"
| "message (CommandError c m) = m"
| "message (Foreign x) = x"

text \<open>
  What an awaited promise does: it resolves to a value, rejects with an error, or
  never settles (a prompt the operator never answers, a call that hangs).
\<close>

datatype 'a outcome = Returned 'a | Thrown error | Pending

section \<open>Data model\<close>

record CredentialMetadata =
  username :: string
  experienceName :: string
  bundleIdentifier :: string
  platform :: string

record IOSCredentials =
  appleId :: "string option"
  password :: "string option"
  teamId :: "string option"
  certP12 :: "string option"
  certPassword :: "string option"
  pushP12 :: "string option"
  pushPassword :: "string option"

definition noCredentials :: IOSCredentials where
  "noCredentials = \<lparr>appleId = None, password = None, teamId = None, certP12 = None,
     certPassword = None, pushP12 = None, pushPassword = None\<rparr>"

record publishArgs =
  args_username :: string
  remoteFullPackageName :: string
  bundleIdentifierIOS :: "string option"

record fsStats =
  isFile :: bool

record builderOptions =
  clearCredentials :: bool

record builder =
  projectDir :: string
  options :: builderOptions

text \<open>What the operator submits at a prompt: a typed line, or the index of a list choice.\<close>

datatype submission = Line string | Choice nat

section \<open>Events and the outside world\<close>

text \<open>
  Every call that leaves the workflow is logged, in order, with its arguments and its
  outcome. \<open>Asked n x\<close>: question \<open>n\<close> was shown and the operator submitted \<open>x\<close>
  (\<open>None\<close>: the operator never answers).
\<close>

datatype event =
    GetPublishInfoAsync string "publishArgs outcome"
  | CredentialsExistForPlatformAsync CredentialMetadata "IOSCredentials option outcome"
  | ValidateCredentialsForPlatform string string "IOSCredentials option" CredentialMetadata
      "jsval outcome"
  | UpdateCredentialsForPlatform string IOSCredentials CredentialMetadata "unit outcome"
  | FetchAppleCertificates CredentialMetadata "jsval outcome"
  | FetchPushCertificates CredentialMetadata "jsval outcome"
  | EnsureAppId CredentialMetadata "unit outcome"
  | FsStat string "fsStats outcome"
  | FsReadFile jsval "8 word list outcome"
  | ConsoleLog string
  | Asked string "submission option"
  | CheckPackagerStatus "unit outcome"
  | CheckStatus "unit outcome"
  | Publish "string list outcome"
  | Build "string list" string "unit outcome"

type_synonym hist = "event list"

text \<open>
  The collaborators outside the sources (the service library \<open>xdl\<close>, Node's \<open>fs\<close>
  and \<open>path\<close>, \<open>untildify\<close>, the methods inherited from \<open>BaseBuilder\<close>) are
  parameters. Each effectful one answers as a function of everything that has happened so
  far, so that the same call may answer differently at different times.
\<close>

record world =
  Exp_getPublishInfoAsync :: "hist \<Rightarrow> string \<Rightarrow> publishArgs outcome"
  Credentials_credentialsExistForPlatformAsync ::
    "hist \<Rightarrow> CredentialMetadata \<Rightarrow> IOSCredentials option outcome"
  Credentials_validateCredentialsForPlatform ::
    "hist \<Rightarrow> string \<Rightarrow> string \<Rightarrow> IOSCredentials option \<Rightarrow> CredentialMetadata \<Rightarrow> jsval outcome"
  Credentials_updateCredentialsForPlatform ::
    "hist \<Rightarrow> string \<Rightarrow> IOSCredentials \<Rightarrow> CredentialMetadata \<Rightarrow> unit outcome"
  Credentials_fetchAppleCertificates :: "hist \<Rightarrow> CredentialMetadata \<Rightarrow> jsval outcome"
  Credentials_fetchPushCertificates :: "hist \<Rightarrow> CredentialMetadata \<Rightarrow> jsval outcome"
  Credentials_ensureAppId :: "hist \<Rightarrow> CredentialMetadata \<Rightarrow> unit outcome"
  fs_stat :: "hist \<Rightarrow> string \<Rightarrow> fsStats outcome"
  fs_readFile :: "hist \<Rightarrow> jsval \<Rightarrow> 8 word list outcome"
  Buffer_toBase64 :: "8 word list \<Rightarrow> string"
  untildify :: "string \<Rightarrow> string"
  path_isAbsolute :: "string \<Rightarrow> bool"
  path_resolve :: "string \<Rightarrow> string"
  this_checkPackagerStatus :: "hist \<Rightarrow> unit outcome"
  this_checkStatus :: "hist \<Rightarrow> unit outcome"
  this_publish :: "hist \<Rightarrow> string list outcome"
  this_build :: "hist \<Rightarrow> string list \<Rightarrow> string \<Rightarrow> unit outcome"

section \<open>Asynchronous computations\<close>

text \<open>
  An \<open>async\<close> function: given the history and the submissions the operator has still
  to make, it yields its outcome, the events it added and the submissions left.
\<close>

type_synonym 'a io = "hist \<Rightarrow> submission list \<Rightarrow> 'a outcome \<times> event list \<times> submission list"

definition return :: "'a \<Rightarrow> 'a io" where
  "return a h ins = (Returned a, [], ins)"

definition throw :: "error \<Rightarrow> 'a io" where
  "throw e h ins = (Thrown e, [], ins)"

definition await :: "'a io \<Rightarrow> ('a \<Rightarrow> 'b io) \<Rightarrow> 'b io" where
  "await m f h ins =
     (case m h ins of
        (Returned a, es, ins') \<Rightarrow>
          (case f a (h @ es) ins' of (r, es', ins'') \<Rightarrow> (r, es @ es', ins''))
      | (Thrown e, es, ins') \<Rightarrow> (Thrown e, es, ins')
      | (Pending, es, ins') \<Rightarrow> (Pending, es, ins'))"

definition tryCatch :: "'a io \<Rightarrow> (error \<Rightarrow> 'a io) \<Rightarrow> 'a io" where
  "tryCatch m handler h ins =
     (case m h ins of
        (Thrown e, es, ins') \<Rightarrow>
          (case handler e (h @ es) ins' of (r, es', ins'') \<Rightarrow> (r, es @ es', ins''))
      | (Returned a, es, ins') \<Rightarrow> (Returned a, es, ins')
      | (Pending, es, ins') \<Rightarrow> (Pending, es, ins'))"

definition call :: "(hist \<Rightarrow> 'a outcome) \<Rightarrow> ('a outcome \<Rightarrow> event) \<Rightarrow> 'a io" where
  "call f ev h ins = (let r = f h in (r, [ev r], ins))"

definition consoleLog :: "string \<Rightarrow> unit io" where
  "consoleLog s h ins = (Returned (), [ConsoleLog s], ins)"

definition getPublishInfoAsync :: "world \<Rightarrow> string \<Rightarrow> publishArgs io" where
  "getPublishInfoAsync w dir =
     call (\<lambda>h. Exp_getPublishInfoAsync w h dir) (GetPublishInfoAsync dir)"

definition credentialsExistForPlatformAsync ::
  "world \<Rightarrow> CredentialMetadata \<Rightarrow> IOSCredentials option io" where
  "credentialsExistForPlatformAsync w m =
     call (\<lambda>h. Credentials_credentialsExistForPlatformAsync w h m)
       (CredentialsExistForPlatformAsync m)"

definition validateCredentialsForPlatform ::
  "world \<Rightarrow> string \<Rightarrow> string \<Rightarrow> IOSCredentials option \<Rightarrow> CredentialMetadata \<Rightarrow> jsval io" where
  "validateCredentialsForPlatform w p k c m =
     call (\<lambda>h. Credentials_validateCredentialsForPlatform w h p k c m)
       (ValidateCredentialsForPlatform p k c m)"

definition updateCredentialsForPlatform ::
  "world \<Rightarrow> string \<Rightarrow> IOSCredentials \<Rightarrow> CredentialMetadata \<Rightarrow> unit io" where
  "updateCredentialsForPlatform w p c m =
     call (\<lambda>h. Credentials_updateCredentialsForPlatform w h p c m)
       (UpdateCredentialsForPlatform p c m)"

definition fetchAppleCertificates :: "world \<Rightarrow> CredentialMetadata \<Rightarrow> jsval io" where
  "fetchAppleCertificates w m =
     call (\<lambda>h. Credentials_fetchAppleCertificates w h m) (FetchAppleCertificates m)"

definition fetchPushCertificates :: "world \<Rightarrow> CredentialMetadata \<Rightarrow> jsval io" where
  "fetchPushCertificates w m =
     call (\<lambda>h. Credentials_fetchPushCertificates w h m) (FetchPushCertificates m)"

definition ensureAppId :: "world \<Rightarrow> CredentialMetadata \<Rightarrow> unit io" where
  "ensureAppId w m = call (\<lambda>h. Credentials_ensureAppId w h m) (EnsureAppId m)"

definition readFile :: "world \<Rightarrow> jsval \<Rightarrow> 8 word list io" where
  "readFile w p = call (\<lambda>h. fs_readFile w h p) (FsReadFile p)"

definition checkPackagerStatus :: "world \<Rightarrow> unit io" where
  "checkPackagerStatus w = call (this_checkPackagerStatus w) CheckPackagerStatus"

definition checkStatus :: "world \<Rightarrow> unit io" where
  "checkStatus w = call (this_checkStatus w) CheckStatus"

definition publish :: "world \<Rightarrow> string list io" where
  "publish w = call (this_publish w) Publish"

definition build :: "world \<Rightarrow> string list \<Rightarrow> string \<Rightarrow> unit io" where
  "build w ids p = call (\<lambda>h. this_build w h ids p) (Build ids p)"

section \<open>The prompt subsystem\<close>

datatype qtype = InputQ | PasswordQ | RawlistQ "(string \<times> jsval) list"

record question =
  qtype :: qtype
  qname :: string
  qmessage :: string
  qvalidate :: "string \<Rightarrow> hist \<Rightarrow> bool outcome \<times> event list"
  qfilter :: "string \<Rightarrow> string"
  qwhen :: "(string \<rightharpoonup> jsval) \<Rightarrow> bool"

text \<open>The defaults of a question that gives no \<open>validate\<close>, \<open>filter\<close> or \<open>when\<close>.\<close>

definition validateAny :: "string \<Rightarrow> hist \<Rightarrow> bool outcome \<times> event list" where
  "validateAny val h = (Returned True, [])"

definition filterNone :: "string \<Rightarrow> string" where
  "filterNone val = val"

definition whenAlways :: "(string \<rightharpoonup> jsval) \<Rightarrow> bool" where
  "whenAlways answers = True"

text \<open>
  Modelled from the spec: the interactive prompt subsystem (the library \<open>inquirer\<close>),
  "ordered list of questions, each with type (free text / masked / single-choice-list), a
  required-non-empty or custom validator, an optional conditional ask-only-if predicate,
  and an optional value transform applied after input before validation"; local input
  validation "loops until satisfied". A free-text or masked question takes a typed line,
  which is transformed and then validated; a list question takes the index of one of its
  choices and answers with that choice's value; any other submission is asked again.
\<close>

datatype accepted = Text string | Picked jsval | Rejected

fun accepts :: "qtype \<Rightarrow> submission \<Rightarrow> accepted" where
  "accepts InputQ (Line s) = Text s"
| "accepts PasswordQ (Line s) = Text s"
| "accepts (RawlistQ choices) (Choice i) =
     (if i < length choices then Picked (snd (choices ! i)) else Rejected)"
| "accepts InputQ (Choice i) = Rejected"
| "accepts PasswordQ (Choice i) = Rejected"
| "accepts (RawlistQ choices) (Line s) = Rejected"

fun ask :: "question \<Rightarrow> jsval io" where
  "ask q h [] = (Pending, [Asked (qname q) None], [])"
| "ask q h (x # xs) =
     (case accepts (qtype q) x of
        Rejected \<Rightarrow>
          (case ask q (h @ [Asked (qname q) (Some x)]) xs of
             (r, es, ins') \<Rightarrow> (r, Asked (qname q) (Some x) # es, ins'))
      | Picked v \<Rightarrow> (Returned v, [Asked (qname q) (Some x)], xs)
      | Text s \<Rightarrow>
          (case qvalidate q (qfilter q s) (h @ [Asked (qname q) (Some x)]) of
             (Returned ok, vs) \<Rightarrow>
               (if ok then (Returned (VStr (qfilter q s)), Asked (qname q) (Some x) # vs, xs)
                else (case ask q (h @ Asked (qname q) (Some x) # vs) xs of
                        (r, es, ins') \<Rightarrow> (r, Asked (qname q) (Some x) # vs @ es, ins')))
           | (Thrown e, vs) \<Rightarrow> (Thrown e, Asked (qname q) (Some x) # vs, xs)
           | (Pending, vs) \<Rightarrow> (Pending, Asked (qname q) (Some x) # vs, xs)))"

fun prompt :: "question list \<Rightarrow> (string \<rightharpoonup> jsval) \<Rightarrow> (string \<rightharpoonup> jsval) io" where
  "prompt [] answers h ins = (Returned answers, [], ins)"
| "prompt (q # qs) answers h ins =
     (if qwhen q answers
      then (case ask q h ins of
              (Returned v, es, ins') \<Rightarrow>
                (case prompt qs (answers(qname q \<mapsto> v)) (h @ es) ins' of
                   (r, es', ins'') \<Rightarrow> (r, es @ es', ins''))
            | (Thrown e, es, ins') \<Rightarrow> (Thrown e, es, ins')
            | (Pending, es, ins') \<Rightarrow> (Pending, es, ins'))
      else prompt qs answers h ins)"

text \<open>\<open>answers.name\<close>: the answer, or \<open>undefined\<close> for a question that was not asked.\<close>

definition answer :: "(string \<rightharpoonup> jsval) \<Rightarrow> string \<Rightarrow> jsval" where
  "answer answers n = (case answers n of None \<Rightarrow> VUndefined | Some v \<Rightarrow> v)"

section \<open>IOSBuilder\<close>

subsection \<open>askForAppleId\<close>

definition nonEmpty :: "string \<Rightarrow> hist \<Rightarrow> bool outcome \<times> event list" where
  "nonEmpty val h = (Returned (val \<noteq> []), [])"

definition appleIdQ :: question where
  "appleIdQ = \<lparr>qtype = InputQ, qname = ''appleId'', qmessage = ''What's your Apple ID?'',
     qvalidate = nonEmpty, qfilter = filterNone, qwhen = whenAlways\<rparr>"

definition passwordQ :: question where
  "passwordQ = \<lparr>qtype = PasswordQ, qname = ''password'', qmessage = ''Password?'',
     qvalidate = nonEmpty, qfilter = filterNone, qwhen = whenAlways\<rparr>"

definition teamIdQ :: question where
  "teamIdQ = \<lparr>qtype = InputQ, qname = ''teamId'',
     qmessage = ''What is your Apple Team ID (you can find that on this page: https://developer.apple.com/account/#/membership)?'',
     qvalidate = nonEmpty, qfilter = filterNone, qwhen = whenAlways\<rparr>"

definition appleIdQuestions :: "question list" where
  "appleIdQuestions = [appleIdQ, passwordQ, teamIdQ]"

definition appleIdNotice :: string where
  "appleIdNotice = ''We need your Apple ID/password to manage certificates and provisioning profiles from your Apple Developer account.''"

definition askForAppleId :: "world \<Rightarrow> CredentialMetadata \<Rightarrow> unit io" where
  "askForAppleId w credentialMetadata =
     await (consoleLog '''') (\<lambda>_.
     await (consoleLog appleIdNotice) (\<lambda>_.
     await (prompt appleIdQuestions Map.empty) (\<lambda>answers.
       let credentials = noCredentials
             \<lparr>appleId := strOf (answer answers ''appleId''),
              password := strOf (answer answers ''password''),
              teamId := strOf (answer answers ''teamId'')\<rparr>
       in
       await (tryCatch
                (validateCredentialsForPlatform w ''ios'' ''appleId'' (Some credentials)
                   credentialMetadata)
                (\<lambda>e. if isXDLError e then throw (CommandError (code e) (message e))
                      else throw e)) (\<lambda>_.
       await (updateCredentialsForPlatform w ''ios'' credentials credentialMetadata) (\<lambda>_.
       return ())))))"

subsection \<open>askForCerts\<close>

text \<open>The \<open>validate\<close> and \<open>filter\<close> callbacks of the \<open>pathToP12\<close> question.\<close>

definition validateP12Path :: "world \<Rightarrow> string \<Rightarrow> hist \<Rightarrow> bool outcome \<times> event list" where
  "validateP12Path w p12Path h =
     (case fs_stat w h p12Path of
        Returned stats \<Rightarrow> (Returned (isFile stats), [FsStat p12Path (Returned stats)])
      | Thrown e \<Rightarrow>
          (Returned False,
           [FsStat p12Path (Thrown e), ConsoleLog (CHR 0x0A # ''File does not exist.'')])
      | Pending \<Rightarrow> (Pending, [FsStat p12Path Pending]))"

definition filterP12Path :: "world \<Rightarrow> string \<Rightarrow> string" where
  "filterP12Path w p12Path =
     (let p12Path = untildify w p12Path
      in if \<not> path_isAbsolute w p12Path then path_resolve w p12Path else p12Path)"

definition manageChoices :: "(string \<times> jsval) list" where
  "manageChoices =
     [(''Let Exponent handle the process!'', VBool True),
      (''I want to upload my own certificate!'', VBool False)]"

definition manageCertificatesQ :: question where
  "manageCertificatesQ =
     \<lparr>qtype = RawlistQ manageChoices, qname = ''manageCertificates'',
      qmessage = ''Do you already have a distribution certificate you'd like us to use,''
        @ CHR 0x0A # ''or do you want us to manage your certificates for you?'',
      qvalidate = validateAny, qfilter = filterNone, qwhen = whenAlways\<rparr>"

definition certPathQ :: "world \<Rightarrow> question" where
  "certPathQ w =
     \<lparr>qtype = InputQ, qname = ''pathToP12'', qmessage = ''Path to P12 file:'',
      qvalidate = validateP12Path w, qfilter = filterP12Path w,
      qwhen = (\<lambda>answers. \<not> truthy (answer answers ''manageCertificates''))\<rparr>"

definition certPasswordQ :: question where
  "certPasswordQ =
     \<lparr>qtype = PasswordQ, qname = ''certPassword'',
      qmessage = ''Certificate P12 password (empty is OK):'',
      qvalidate = validateAny, qfilter = filterNone,
      qwhen = (\<lambda>answers. \<not> truthy (answer answers ''manageCertificates''))\<rparr>"

definition certQuestions :: "world \<Rightarrow> question list" where
  "certQuestions w = [manageCertificatesQ, certPathQ w, certPasswordQ]"

definition certNotInPortal :: string where
  "certNotInPortal = ''Oops! This certificate doesn't seem to be present in your developer portal. Please upload a different certificate that exists in your developer portal.''"

definition failedFetchingUploading :: string where
  "failedFetchingUploading = ''Failed fetching/uploading certificates.''"

definition askForCerts :: "world \<Rightarrow> CredentialMetadata \<Rightarrow> unit io" where
  "askForCerts w credentialMetadata =
     await (consoleLog '''') (\<lambda>_.
     await (prompt (certQuestions w) Map.empty) (\<lambda>answers.
     tryCatch
       (if truthy (answer answers ''manageCertificates'')
        then await (fetchAppleCertificates w credentialMetadata) (\<lambda>_. return ())
        else
          await (readFile w (answer answers ''pathToP12'')) (\<lambda>p12Data.
            let credentials = noCredentials
                  \<lparr>certP12 := Some (Buffer_toBase64 w p12Data),
                   certPassword := strOf (answer answers ''certPassword'')\<rparr>
            in
            await (tryCatch
                     (validateCredentialsForPlatform w ''ios'' ''cert'' (Some credentials)
                        credentialMetadata)
                     (\<lambda>e. if isXDLError e then throw (CommandError (code e) certNotInPortal)
                           else throw e)) (\<lambda>_.
            await (updateCredentialsForPlatform w ''ios'' credentials credentialMetadata) (\<lambda>_.
            return ()))))
       (\<lambda>e. if isXDLError e then throw (CommandError (code e) failedFetchingUploading)
             else throw e)))"

subsection \<open>askForPushCerts\<close>

definition managePushCertificatesQ :: question where
  "managePushCertificatesQ =
     \<lparr>qtype = RawlistQ manageChoices, qname = ''managePushCertificates'',
      qmessage = ''Do you already have a push notification certificate you'd like us to use,''
        @ CHR 0x0A # ''or do you want us to manage your push certificates for you?'',
      qvalidate = validateAny, qfilter = filterNone, qwhen = whenAlways\<rparr>"

definition pushPathQ :: "world \<Rightarrow> question" where
  "pushPathQ w =
     \<lparr>qtype = InputQ, qname = ''pathToP12'', qmessage = ''Path to P12 file:'',
      qvalidate = validateP12Path w, qfilter = filterP12Path w,
      qwhen = (\<lambda>answers. \<not> truthy (answer answers ''managePushCertificates''))\<rparr>"

definition pushPasswordQ :: question where
  "pushPasswordQ =
     \<lparr>qtype = PasswordQ, qname = ''pushPassword'',
      qmessage = ''Push certificate P12 password (empty is OK):'',
      qvalidate = validateAny, qfilter = filterNone,
      qwhen = (\<lambda>answers. \<not> truthy (answer answers ''managePushCertificates''))\<rparr>"

definition pushCertQuestions :: "world \<Rightarrow> question list" where
  "pushCertQuestions w = [managePushCertificatesQ, pushPathQ w, pushPasswordQ]"

definition pushCertNotInPortal :: string where
  "pushCertNotInPortal = ''Oops! This push certificate doesn't seem to be present in your developer portal. Please upload a different certificate that exists in your developer portal.''"

text \<open>
  The variable \<open>isValid\<close> is the value of the outer \<open>try\<close> block: what the fetch or
  the validation resolved to, or \<open>false\<close> when the block threw an error that is not an
  \<open>XDLError\<close>.
\<close>

definition askForPushCerts :: "world \<Rightarrow> CredentialMetadata \<Rightarrow> unit io" where
  "askForPushCerts w credentialMetadata =
     await (consoleLog '''') (\<lambda>_.
     await (prompt (pushCertQuestions w) Map.empty) (\<lambda>answers.
     await (tryCatch
              (if truthy (answer answers ''managePushCertificates'')
               then fetchPushCertificates w credentialMetadata
               else
                 await (readFile w (answer answers ''pathToP12'')) (\<lambda>p12Data.
                   let credentials = noCredentials
                         \<lparr>pushP12 := Some (Buffer_toBase64 w p12Data),
                          pushPassword := strOf (answer answers ''pushPassword'')\<rparr>
                   in
                   await (tryCatch
                            (validateCredentialsForPlatform w ''ios'' ''push''
                               (Some credentials) credentialMetadata)
                            (\<lambda>e. throw (XDLError CREDENTIAL_ERROR pushCertNotInPortal)))
                     (\<lambda>isValid.
                   await (updateCredentialsForPlatform w ''ios'' credentials
                            credentialMetadata) (\<lambda>_.
                   return isValid))))
              (\<lambda>e. if \<not> isXDLError e then return (VBool False) else throw e)) (\<lambda>isValid.
     if \<not> truthy isValid then throw (XDLError CREDENTIAL_ERROR failedFetchingUploading)
     else return ())))"

subsection \<open>collectAndValidateCredentials\<close>

text \<open>
  Lines 76 to 85: the three flags. A flag that neither branch assigns stays
  \<open>undefined\<close>, which the tests \<open>!hasAppleId\<close>, \<open>!hasCert\<close>, \<open>!hasPushCert\<close> read
  as false.
\<close>

definition hasCredentials :: "bool \<Rightarrow> IOSCredentials option \<Rightarrow> bool \<times> bool \<times> bool" where
  "hasCredentials clear existingCredentials =
     (if clear \<or> existingCredentials = None then (False, False, False)
      else (case existingCredentials of
              Some existing \<Rightarrow>
                (truthyField (appleId existing), truthyField (certP12 existing),
                 truthyField (pushP12 existing))
            | None \<Rightarrow> (False, False, False)))"

definition missingBundleIdentifier :: error where
  "missingBundleIdentifier = XDLError INVALID_OPTIONS ''Your project must have a bundleIdentifier set in exp.json. See https://docs.getexponent.com/versions/latest/guides/building-standalone-apps.html''"

definition storedCredentialsInvalid :: error where
  \<open>storedCredentialsInvalid = XDLError CREDENTIAL_ERROR ''Stored credentials are invalid! Rerun this command with "-c" in order to reinput your credentials.''\<close>

definition storedCertificateInvalid :: error where
  \<open>storedCertificateInvalid = XDLError CREDENTIAL_ERROR ''Stored certificate is invalid! Rerun this command with "-c" in order to reinput your credentials and reupload/regenerate certificates.''\<close>

definition storedPushCertificateInvalid :: error where
  \<open>storedPushCertificateInvalid = XDLError CREDENTIAL_ERROR ''Stored push certificate is invalid! Rerun this command with "-c" in order to reinput your credentials and reupload/regenerate certificates.''\<close>

definition cannotCreateAppId :: "string \<Rightarrow> error" where
  "cannotCreateAppId bundleId = XDLError CREDENTIAL_ERROR
     (''It seems like we can't create an app on the Apple developer center with this app id: ''
      @ bundleId @ ''. Please change your bundle identifier to something else.'')"

text \<open>
  Lines 87 to 95, 97 to 105 and 117 to 125: each kind is collected when its flag is
  false and re-validated, with no new data, when it is true. Lines 107 to 115: the app id.
\<close>

definition appleIdStep :: "world \<Rightarrow> bool \<Rightarrow> CredentialMetadata \<Rightarrow> unit io" where
  "appleIdStep w hasAppleId credentialMetadata =
     (if \<not> hasAppleId then askForAppleId w credentialMetadata
      else tryCatch
             (await (validateCredentialsForPlatform w ''ios'' ''appleId'' None
                       credentialMetadata) (\<lambda>_. return ()))
             (\<lambda>e. throw storedCredentialsInvalid))"

definition certStep :: "world \<Rightarrow> bool \<Rightarrow> CredentialMetadata \<Rightarrow> unit io" where
  "certStep w hasCert credentialMetadata =
     (if \<not> hasCert then askForCerts w credentialMetadata
      else tryCatch
             (await (validateCredentialsForPlatform w ''ios'' ''cert'' None
                       credentialMetadata) (\<lambda>_. return ()))
             (\<lambda>e. throw storedCertificateInvalid))"

definition appIdStep :: "world \<Rightarrow> CredentialMetadata \<Rightarrow> unit io" where
  "appIdStep w credentialMetadata =
     tryCatch (ensureAppId w credentialMetadata)
       (\<lambda>e. throw (cannotCreateAppId (bundleIdentifier credentialMetadata)))"

definition pushStep :: "world \<Rightarrow> bool \<Rightarrow> CredentialMetadata \<Rightarrow> unit io" where
  "pushStep w hasPushCert credentialMetadata =
     (if \<not> hasPushCert then askForPushCerts w credentialMetadata
      else tryCatch
             (await (validateCredentialsForPlatform w ''ios'' ''push'' None
                       credentialMetadata) (\<lambda>_. return ()))
             (\<lambda>e. throw storedPushCertificateInvalid))"

text \<open>
  The test \<open>!bundleIdentifier\<close> holds for the absent field and for the empty string; past
  it the identifier is a non-empty string.
\<close>

definition collectAndValidateCredentials :: "world \<Rightarrow> builder \<Rightarrow> unit io" where
  "collectAndValidateCredentials w this =
     await (getPublishInfoAsync w (projectDir this)) (\<lambda>info.
       case bundleIdentifierIOS info of
         None \<Rightarrow> throw missingBundleIdentifier
       | Some bundleId \<Rightarrow>
       if bundleId = [] then throw missingBundleIdentifier
       else
         let credentialMetadata =
               \<lparr>username = args_username info,
                experienceName = remoteFullPackageName info,
                bundleIdentifier = bundleId, platform = ''ios''\<rparr>
         in
         await (credentialsExistForPlatformAsync w credentialMetadata) (\<lambda>existingCredentials.
           case hasCredentials (clearCredentials (options this)) existingCredentials of
             (hasAppleId, hasCert, hasPushCert) \<Rightarrow>
         await (appleIdStep w hasAppleId credentialMetadata) (\<lambda>_.
         await (certStep w hasCert credentialMetadata) (\<lambda>_.
         await (appIdStep w credentialMetadata) (\<lambda>_.
         pushStep w hasPushCert credentialMetadata)))))"

subsection \<open>run\<close>

definition run :: "world \<Rightarrow> builder \<Rightarrow> unit io" where
  "run w this =
     await (checkPackagerStatus w) (\<lambda>_.
     await (checkStatus w) (\<lambda>_.
     await (collectAndValidateCredentials w this) (\<lambda>_.
     await (publish w) (\<lambda>publishedExpIds.
     build w publishedExpIds ''ios''))))"

section \<open>Properties of traces\<close>

text \<open>The events of a prompt: console output, a question shown, the file check of a path.\<close>

fun interaction :: "event \<Rightarrow> bool" where
  "interaction (ConsoleLog s) = True"
| "interaction (Asked n x) = True"
| "interaction (FsStat p out) = True"
| "interaction _ = False"

text \<open>
  The three credential kinds: the validation type the service is called with, the first
  question of the kind's collection flow, the field of the stored bundle that stands for
  the kind, and the questions only that kind asks.
\<close>

datatype kind = AppleId | Cert | Push

fun validationType :: "kind \<Rightarrow> string" where
  "validationType AppleId = ''appleId''"
| "validationType Cert = ''cert''"
| "validationType Push = ''push''"

fun firstQuestion :: "kind \<Rightarrow> string" where
  "firstQuestion AppleId = ''appleId''"
| "firstQuestion Cert = ''manageCertificates''"
| "firstQuestion Push = ''managePushCertificates''"

fun designated :: "kind \<Rightarrow> IOSCredentials \<Rightarrow> string option" where
  "designated AppleId c = appleId c"
| "designated Cert c = certP12 c"
| "designated Push c = pushP12 c"

fun ownQuestions :: "kind \<Rightarrow> string list" where
  "ownQuestions AppleId = [''appleId'', ''password'', ''teamId'']"
| "ownQuestions Cert = [''manageCertificates'', ''certPassword'']"
| "ownQuestions Push = [''managePushCertificates'', ''pushPassword'']"

text \<open>The credentials carry the material of kind \<open>k\<close> and of no other kind.\<close>

definition only :: "kind \<Rightarrow> IOSCredentials \<Rightarrow> bool" where
  "only k c \<longleftrightarrow>
     (appleId c \<noteq> None) = (k = AppleId) \<and> (certP12 c \<noteq> None) = (k = Cert) \<and>
     (pushP12 c \<noteq> None) = (k = Push)"

fun isAsked :: "string \<Rightarrow> event \<Rightarrow> bool" where
  "isAsked n (Asked n' x) = (n' = n)"
| "isAsked n _ = False"

fun isRevalidation :: "string \<Rightarrow> event \<Rightarrow> bool" where
  "isRevalidation k (ValidateCredentialsForPlatform p k' None m out) = (k' = k)"
| "isRevalidation k _ = False"

text \<open>
  The collection flow of a kind was invoked: its first question was shown. The
  re-validate flow of a kind was invoked: the service was asked to validate that kind
  with no new data.
\<close>

definition collects :: "kind \<Rightarrow> event list \<Rightarrow> bool" where
  "collects k es = list_ex (isAsked (firstQuestion k)) es"

definition revalidates :: "kind \<Rightarrow> event list \<Rightarrow> bool" where
  "revalidates k es = list_ex (isRevalidation (validationType k)) es"

text \<open>
  Events that belong to one kind, and events every step may emit (console output, the
  file check and the read of a path, the question for the path).
\<close>

fun specific :: "kind \<Rightarrow> event \<Rightarrow> bool" where
  "specific k (Asked n x) = (n \<in> set (ownQuestions k))"
| "specific k (ValidateCredentialsForPlatform p k' c m out) = (k' = validationType k)"
| "specific k (UpdateCredentialsForPlatform p c m out) = only k c"
| "specific k (FetchAppleCertificates m out) = (k = Cert)"
| "specific k (FetchPushCertificates m out) = (k = Push)"
| "specific k _ = False"

fun shared :: "event \<Rightarrow> bool" where
  "shared (ConsoleLog s) = True"
| "shared (FsStat p out) = True"
| "shared (FsReadFile p out) = True"
| "shared (Asked n x) = (n = ''pathToP12'')"
| "shared _ = False"

definition stepEvent :: "kind \<Rightarrow> event \<Rightarrow> bool" where
  "stepEvent k e \<longleftrightarrow> specific k e \<or> shared e"

text \<open>
  An update is guarded when the event just before it is the validation of the same
  credentials for the same metadata, of the kind whose material they carry, and that
  validation returned.
\<close>

fun validatedBy :: "event option \<Rightarrow> string \<Rightarrow> IOSCredentials \<Rightarrow> CredentialMetadata \<Rightarrow> bool" where
  "validatedBy (Some (ValidateCredentialsForPlatform p k (Some c) m (Returned v))) p' c' m' =
     (p = p' \<and> c = c' \<and> m = m' \<and>
      list_ex (\<lambda>kind. k = validationType kind \<and> only kind c) [AppleId, Cert, Push])"
| "validatedBy _ p' c' m' = False"

fun updatesGuarded :: "event option \<Rightarrow> event list \<Rightarrow> bool" where
  "updatesGuarded prev [] = True"
| "updatesGuarded prev (UpdateCredentialsForPlatform p c m out # es) =
     (validatedBy prev p c m \<and>
      updatesGuarded (Some (UpdateCredentialsForPlatform p c m out)) es)"
| "updatesGuarded prev (e # es) = updatesGuarded (Some e) es"

text \<open>What the handlers make of an error \<open>e\<close> thrown inside their \<open>try\<close> block.\<close>

definition surfaced :: "error \<Rightarrow> error" where
  "surfaced e = (if isXDLError e then CommandError (code e) (message e) else e)"

definition wrapGeneric :: "error \<Rightarrow> error" where
  "wrapGeneric e = (if isXDLError e then CommandError (code e) failedFetchingUploading else e)"

definition wrapNotInPortal :: "error \<Rightarrow> error" where
  "wrapNotInPortal e = (if isXDLError e then CommandError (code e) certNotInPortal else e)"

definition genericFailure :: error where
  "genericFailure = XDLError CREDENTIAL_ERROR failedFetchingUploading"

definition pushCaught :: "error \<Rightarrow> error" where
  "pushCaught e = (if isXDLError e then e else genericFailure)"

definition pushVerdict :: "jsval \<Rightarrow> unit outcome" where
  "pushVerdict isValid = (if truthy isValid then Returned () else Thrown genericFailure)"

text \<open>
  The traces of the three collection flows: the events of the prompt, then one of a few
  endings, each with the outcome of the flow.
\<close>

definition promptPhase :: "kind \<Rightarrow> event list \<Rightarrow> bool" where
  "promptPhase k es \<longleftrightarrow>
     list_all interaction es \<and> list_all (stepEvent k) es \<and> collects k es"

inductive appleIdTail :: "CredentialMetadata \<Rightarrow> unit outcome \<Rightarrow> event list \<Rightarrow> bool"
  for m :: CredentialMetadata where
  waiting: "appleIdTail m Pending []"
| rejected: "only AppleId c \<Longrightarrow>
     appleIdTail m (Thrown (surfaced e))
       [ValidateCredentialsForPlatform ''ios'' ''appleId'' (Some c) m (Thrown e)]"
| validation_hung: "only AppleId c \<Longrightarrow>
     appleIdTail m Pending
       [ValidateCredentialsForPlatform ''ios'' ''appleId'' (Some c) m Pending]"
| validated: "only AppleId c \<Longrightarrow>
     appleIdTail m out
       [ValidateCredentialsForPlatform ''ios'' ''appleId'' (Some c) m (Returned v),
        UpdateCredentialsForPlatform ''ios'' c m out]"

inductive appleIdTrace :: "CredentialMetadata \<Rightarrow> unit outcome \<Rightarrow> event list \<Rightarrow> bool"
  for m :: CredentialMetadata where
  "promptPhase AppleId pes \<Longrightarrow> appleIdTail m r tail \<Longrightarrow>
     appleIdTrace m r (ConsoleLog '''' # ConsoleLog appleIdNotice # pes @ tail)"

inductive certTail ::
  "world \<Rightarrow> CredentialMetadata \<Rightarrow> jsval \<Rightarrow> unit outcome \<Rightarrow> event list \<Rightarrow> bool"
  for w :: world and m :: CredentialMetadata and p :: jsval where
  waiting: "certTail w m p Pending []"
| fetched: "certTail w m p (Returned ()) [FetchAppleCertificates m (Returned v)]"
| fetch_failed: "certTail w m p (Thrown (wrapGeneric e)) [FetchAppleCertificates m (Thrown e)]"
| fetch_hung: "certTail w m p Pending [FetchAppleCertificates m Pending]"
| read_failed: "certTail w m p (Thrown (wrapGeneric e)) [FsReadFile p (Thrown e)]"
| read_hung: "certTail w m p Pending [FsReadFile p Pending]"
| rejected: "only Cert c \<Longrightarrow> certP12 c = Some (Buffer_toBase64 w d) \<Longrightarrow>
     certTail w m p (Thrown (wrapNotInPortal e))
       [FsReadFile p (Returned d),
        ValidateCredentialsForPlatform ''ios'' ''cert'' (Some c) m (Thrown e)]"
| validation_hung: "only Cert c \<Longrightarrow> certP12 c = Some (Buffer_toBase64 w d) \<Longrightarrow>
     certTail w m p Pending
       [FsReadFile p (Returned d),
        ValidateCredentialsForPlatform ''ios'' ''cert'' (Some c) m Pending]"
| updated: "only Cert c \<Longrightarrow> certP12 c = Some (Buffer_toBase64 w d) \<Longrightarrow>
     certTail w m p (Returned ())
       [FsReadFile p (Returned d),
        ValidateCredentialsForPlatform ''ios'' ''cert'' (Some c) m (Returned v),
        UpdateCredentialsForPlatform ''ios'' c m (Returned ())]"
| update_failed: "only Cert c \<Longrightarrow> certP12 c = Some (Buffer_toBase64 w d) \<Longrightarrow>
     certTail w m p (Thrown (wrapGeneric e))
       [FsReadFile p (Returned d),
        ValidateCredentialsForPlatform ''ios'' ''cert'' (Some c) m (Returned v),
        UpdateCredentialsForPlatform ''ios'' c m (Thrown e)]"
| update_hung: "only Cert c \<Longrightarrow> certP12 c = Some (Buffer_toBase64 w d) \<Longrightarrow>
     certTail w m p Pending
       [FsReadFile p (Returned d),
        ValidateCredentialsForPlatform ''ios'' ''cert'' (Some c) m (Returned v),
        UpdateCredentialsForPlatform ''ios'' c m Pending]"

inductive certTrace :: "world \<Rightarrow> CredentialMetadata \<Rightarrow> unit outcome \<Rightarrow> event list \<Rightarrow> bool"
  for w :: world and m :: CredentialMetadata where
  "promptPhase Cert pes \<Longrightarrow> certTail w m p r tail \<Longrightarrow>
     certTrace w m r (ConsoleLog '''' # pes @ tail)"

inductive pushTail ::
  "world \<Rightarrow> CredentialMetadata \<Rightarrow> jsval \<Rightarrow> unit outcome \<Rightarrow> event list \<Rightarrow> bool"
  for w :: world and m :: CredentialMetadata and p :: jsval where
  waiting: "pushTail w m p Pending []"
| fetched: "pushTail w m p (pushVerdict v) [FetchPushCertificates m (Returned v)]"
| fetch_failed: "pushTail w m p (Thrown (pushCaught e)) [FetchPushCertificates m (Thrown e)]"
| fetch_hung: "pushTail w m p Pending [FetchPushCertificates m Pending]"
| read_failed: "pushTail w m p (Thrown (pushCaught e)) [FsReadFile p (Thrown e)]"
| read_hung: "pushTail w m p Pending [FsReadFile p Pending]"
| rejected: "only Push c \<Longrightarrow> pushP12 c = Some (Buffer_toBase64 w d) \<Longrightarrow>
     pushTail w m p (Thrown (XDLError CREDENTIAL_ERROR pushCertNotInPortal))
       [FsReadFile p (Returned d),
        ValidateCredentialsForPlatform ''ios'' ''push'' (Some c) m (Thrown e)]"
| validation_hung: "only Push c \<Longrightarrow> pushP12 c = Some (Buffer_toBase64 w d) \<Longrightarrow>
     pushTail w m p Pending
       [FsReadFile p (Returned d),
        ValidateCredentialsForPlatform ''ios'' ''push'' (Some c) m Pending]"
| updated: "only Push c \<Longrightarrow> pushP12 c = Some (Buffer_toBase64 w d) \<Longrightarrow>
     pushTail w m p (pushVerdict v)
       [FsReadFile p (Returned d),
        ValidateCredentialsForPlatform ''ios'' ''push'' (Some c) m (Returned v),
        UpdateCredentialsForPlatform ''ios'' c m (Returned ())]"
| update_failed: "only Push c \<Longrightarrow> pushP12 c = Some (Buffer_toBase64 w d) \<Longrightarrow>
     pushTail w m p (Thrown (pushCaught e))
       [FsReadFile p (Returned d),
        ValidateCredentialsForPlatform ''ios'' ''push'' (Some c) m (Returned v),
        UpdateCredentialsForPlatform ''ios'' c m (Thrown e)]"
| update_hung: "only Push c \<Longrightarrow> pushP12 c = Some (Buffer_toBase64 w d) \<Longrightarrow>
     pushTail w m p Pending
       [FsReadFile p (Returned d),
        ValidateCredentialsForPlatform ''ios'' ''push'' (Some c) m (Returned v),
        UpdateCredentialsForPlatform ''ios'' c m Pending]"

inductive pushTrace :: "world \<Rightarrow> CredentialMetadata \<Rightarrow> unit outcome \<Rightarrow> event list \<Rightarrow> bool"
  for w :: world and m :: CredentialMetadata where
  "promptPhase Push pes \<Longrightarrow> pushTail w m p r tail \<Longrightarrow>
     pushTrace w m r (ConsoleLog '''' # pes @ tail)"

text \<open>
  The error a call of a flow was rejected with. The failed file check of a path is not
  among them: the prompt answers it by asking again.
\<close>

fun rejection :: "event \<Rightarrow> error option" where
  "rejection (ValidateCredentialsForPlatform p k c m (Thrown e)) = Some e"
| "rejection (UpdateCredentialsForPlatform p c m (Thrown e)) = Some e"
| "rejection (FetchAppleCertificates m (Thrown e)) = Some e"
| "rejection (FetchPushCertificates m (Thrown e)) = Some e"
| "rejection (FsReadFile p (Thrown e)) = Some e"
| "rejection _ = None"

fun isValidation :: "event \<Rightarrow> bool" where
  "isValidation (ValidateCredentialsForPlatform p k c m out) = True"
| "isValidation _ = False"

text \<open>
  Where the workflow stands. The step of a kind is reached once the step before it has
  ended well: the stored bundle was fetched (Apple ID), the Apple ID was re-validated or
  its new credentials were stored (certificate), the app id was registered (push
  certificate).
\<close>

fun fetchedBundle :: "event \<Rightarrow> bool" where
  "fetchedBundle (CredentialsExistForPlatformAsync m (Returned x)) = True"
| "fetchedBundle _ = False"

fun appleIdDone :: "event \<Rightarrow> bool" where
  "appleIdDone (ValidateCredentialsForPlatform p k None m (Returned v)) = (k = ''appleId'')"
| "appleIdDone (UpdateCredentialsForPlatform p c m (Returned u)) = only AppleId c"
| "appleIdDone _ = False"

fun certDone :: "event \<Rightarrow> bool" where
  "certDone (ValidateCredentialsForPlatform p k None m (Returned v)) = (k = ''cert'')"
| "certDone (UpdateCredentialsForPlatform p c m (Returned u)) = only Cert c"
| "certDone (FetchAppleCertificates m (Returned v)) = True"
| "certDone _ = False"

fun isEnsureAppId :: "event \<Rightarrow> bool" where
  "isEnsureAppId (EnsureAppId m out) = True"
| "isEnsureAppId _ = False"

fun appIdRegistered :: "event \<Rightarrow> bool" where
  "appIdRegistered (EnsureAppId m (Returned u)) = True"
| "appIdRegistered _ = False"

fun reached :: "kind \<Rightarrow> event list \<Rightarrow> bool" where
  "reached AppleId es = list_ex fetchedBundle es"
| "reached Cert es = list_ex appleIdDone es"
| "reached Push es = list_ex appIdRegistered es"

text \<open>
  The kind counts as present: the clear flag is unset, a bundle was fetched and the
  kind's field of it is truthy.
\<close>

definition present :: "bool \<Rightarrow> IOSCredentials option \<Rightarrow> kind \<Rightarrow> bool" where
  "present clear existing k \<longleftrightarrow>
     \<not> clear \<and> (case existing of None \<Rightarrow> False | Some b \<Rightarrow> truthyField (designated k b))"

text \<open>What one step of the workflow leaves in the trace.\<close>

definition stepOutcome :: "kind \<Rightarrow> bool \<Rightarrow> event list \<Rightarrow> bool" where
  "stepOutcome kind has s \<longleftrightarrow>
     list_all (stepEvent kind) s \<and> (\<forall>prev. updatesGuarded prev s) \<and>
     (\<forall>k. collects k s = (k = kind \<and> \<not> has)) \<and>
     (\<forall>k. revalidates k s = (k = kind \<and> has))"

definition credentialMetadataOf :: "publishArgs \<Rightarrow> CredentialMetadata" where
  "credentialMetadataOf info =
     \<lparr>username = args_username info, experienceName = remoteFullPackageName info,
      bundleIdentifier = (case bundleIdentifierIOS info of None \<Rightarrow> [] | Some b \<Rightarrow> b),
      platform = ''ios''\<rparr>"

fun isPublish :: "event \<Rightarrow> bool" where
  "isPublish (Publish out) = True"
| "isPublish _ = False"

fun isBuild :: "event \<Rightarrow> bool" where
  "isBuild (Build ids p out) = True"
| "isBuild _ = False"

text \<open>
  The discipline of the path question, as an automaton over the trace. It remembers the
  line last typed at the question \<open>pathToP12\<close>, the paths whose file check found a
  regular file, the encoded contents of the files read, and what the prompt owes the
  operator after a failed check: to ask again, after the console message if the check
  threw. It stops (\<open>None\<close>) when
  \<^item> a file check is made on anything but the transform of the line just typed,
  \<^item> after a failed check anything happens but the question being asked again,
  \<^item> a file is read whose path did not pass the check,
  \<^item> credentials are validated or stored whose certificate was not read from such a file.
\<close>

datatype debt = Settled | MustAsk | MustLogThenAsk

record pathCheck =
  typed :: "string option"
  passed :: "string list"
  loaded :: "string list"
  owed :: debt

definition pathStart :: pathCheck where
  "pathStart = \<lparr>typed = None, passed = [], loaded = [], owed = Settled\<rparr>"

fun pathStep :: "world \<Rightarrow> pathCheck \<Rightarrow> event \<Rightarrow> pathCheck option" where
  "pathStep w s (Asked n x) =
     (if n = ''pathToP12''
      then (if owed s = MustLogThenAsk then None
            else Some (s\<lparr>typed := (case x of Some (Line l) \<Rightarrow> Some l | _ \<Rightarrow> None),
                         owed := Settled\<rparr>))
      else if owed s = Settled then Some s else None)"
| "pathStep w s (FsStat p out) =
     (case typed s of
        None \<Rightarrow> None
      | Some l \<Rightarrow>
          if owed s = Settled \<and> p = filterP12Path w l
          then Some (case out of
                       Returned stats \<Rightarrow>
                         if isFile stats then s\<lparr>typed := None, passed := p # passed s\<rparr>
                         else s\<lparr>typed := None, owed := MustAsk\<rparr>
                     | Thrown e \<Rightarrow> s\<lparr>typed := None, owed := MustLogThenAsk\<rparr>
                     | Pending \<Rightarrow> s\<lparr>typed := None\<rparr>)
          else None)"
| "pathStep w s (ConsoleLog l) =
     (case owed s of
        Settled \<Rightarrow> Some s
      | MustLogThenAsk \<Rightarrow> Some (s\<lparr>owed := MustAsk\<rparr>)
      | MustAsk \<Rightarrow> None)"
| "pathStep w s (FsReadFile v out) =
     (if owed s = Settled \<and> list_ex (\<lambda>p. v = VStr p) (passed s)
      then Some (case out of
                   Returned d \<Rightarrow> s\<lparr>loaded := Buffer_toBase64 w d # loaded s\<rparr>
                 | Thrown e \<Rightarrow> s
                 | Pending \<Rightarrow> s)
      else None)"
| "pathStep w s (ValidateCredentialsForPlatform p k c m out) =
     (if owed s = Settled \<and>
         (case c of None \<Rightarrow> True
          | Some c' \<Rightarrow> list_ex (\<lambda>d. certP12 c' = Some d) (loaded s))
      then Some s else None)"
| "pathStep w s (UpdateCredentialsForPlatform p c m out) =
     (if owed s = Settled \<and> list_ex (\<lambda>d. certP12 c = Some d) (loaded s)
      then Some s else None)"
| "pathStep w s e = (if owed s = Settled then Some s else None)"

fun pathRun :: "world \<Rightarrow> pathCheck \<Rightarrow> event list \<Rightarrow> pathCheck option" where
  "pathRun w s [] = Some s"
| "pathRun w s (e # es) =
     (case pathStep w s e of None \<Rightarrow> None | Some s' \<Rightarrow> pathRun w s' es)"

definition pathDiscipline :: "world \<Rightarrow> event list \<Rightarrow> bool" where
  "pathDiscipline w es =
     (case pathRun w pathStart es of None \<Rightarrow> False | Some s \<Rightarrow> owed s = Settled)"

section \<open>Sample worlds\<close>

definition sampleInfo :: publishArgs where
  "sampleInfo = \<lparr>args_username = ''dev'', remoteFullPackageName = ''@dev/app'',
     bundleIdentifierIOS = Some ''com.dev.app''\<rparr>"

definition sampleMetadata :: CredentialMetadata where
  "sampleMetadata = \<lparr>username = ''dev'', experienceName = ''@dev/app'',
     bundleIdentifier = ''com.dev.app'', platform = ''ios''\<rparr>"

definition sampleBuilder :: builder where
  "sampleBuilder = \<lparr>projectDir = ''.'', options = \<lparr>clearCredentials = False\<rparr>\<rparr>"

text \<open>
  A world in which nothing is stored, every call succeeds and the only file is
  \<open>/certs/dist.p12\<close>.
\<close>

definition calm :: world where
  "calm = \<lparr>
     Exp_getPublishInfoAsync = (\<lambda>h dir. Returned sampleInfo),
     Credentials_credentialsExistForPlatformAsync = (\<lambda>h m. Returned None),
     Credentials_validateCredentialsForPlatform = (\<lambda>h p k c m. Returned VUndefined),
     Credentials_updateCredentialsForPlatform = (\<lambda>h p c m. Returned ()),
     Credentials_fetchAppleCertificates = (\<lambda>h m. Returned VUndefined),
     Credentials_fetchPushCertificates = (\<lambda>h m. Returned (VBool True)),
     Credentials_ensureAppId = (\<lambda>h m. Returned ()),
     fs_stat = (\<lambda>h p. if p = ''/certs/dist.p12'' then Returned \<lparr>isFile = True\<rparr>
                       else Thrown (Foreign ''ENOENT'')),
     fs_readFile = (\<lambda>h p. Returned [0x30, 0x82]),
     Buffer_toBase64 = (\<lambda>b. ''MII=''),
     untildify = (\<lambda>p. p),
     path_isAbsolute = (\<lambda>p. take 1 p = ''/''),
     path_resolve = (\<lambda>p. ''/certs/'' @ p),
     this_checkPackagerStatus = (\<lambda>h. Returned ()),
     this_checkStatus = (\<lambda>h. Returned ()),
     this_publish = (\<lambda>h. Returned [''exp-1'']),
     this_build = (\<lambda>h ids p. Returned ())\<rparr>"

definition infoWithoutBundleId :: publishArgs where
  "infoWithoutBundleId = sampleInfo\<lparr>bundleIdentifierIOS := None\<rparr>"

definition worldWithoutBundleId :: world where
  "worldWithoutBundleId = calm\<lparr>Exp_getPublishInfoAsync := (\<lambda>h dir. Returned infoWithoutBundleId)\<rparr>"

definition worldPushNotValid :: world where
  "worldPushNotValid = calm\<lparr>Credentials_fetchPushCertificates := (\<lambda>h m. Returned (VBool False))\<rparr>"

definition worldNetworkDown :: world where
  "worldNetworkDown =
     calm\<lparr>Credentials_fetchAppleCertificates := (\<lambda>h m. Thrown (Foreign ''socket hang up''))\<rparr>"

definition storedBundle :: IOSCredentials where
  "storedBundle = \<lparr>appleId = Some ''me@dev.io'', password = Some ''secret'',
     teamId = Some ''TEAM1'', certP12 = Some ''MIIcert'', certPassword = Some '''',
     pushP12 = Some ''MIIpush'', pushPassword = Some ''''\<rparr>"

definition serviceRejects :: error where
  "serviceRejects = XDLError CREDENTIAL_ERROR ''Unable to validate credentials.''"

text \<open>Everything is stored, and the service rejects every validation.\<close>

definition worldStoredInvalid :: world where
  "worldStoredInvalid =
     calm\<lparr>Credentials_credentialsExistForPlatformAsync := (\<lambda>h m. Returned (Some storedBundle)),
          Credentials_validateCredentialsForPlatform := (\<lambda>h p k c m. Thrown serviceRejects)\<rparr>"

text \<open>Nothing is stored, and the service rejects every validation.\<close>

definition worldAppleIdRejected :: world where
  "worldAppleIdRejected =
     calm\<lparr>Credentials_validateCredentialsForPlatform := (\<lambda>h p k c m. Thrown serviceRejects)\<rparr>"

text \<open>The Apple ID and the certificate are stored, the push certificate is not.\<close>

definition bundleWithoutPush :: IOSCredentials where
  "bundleWithoutPush = storedBundle\<lparr>pushP12 := None, pushPassword := None\<rparr>"

definition worldWithoutPush :: world where
  "worldWithoutPush =
     calm\<lparr>Credentials_credentialsExistForPlatformAsync :=
            (\<lambda>h m. Returned (Some bundleWithoutPush))\<rparr>"

text \<open>Everything is stored and valid.\<close>

definition worldAllStored :: world where
  "worldAllStored =
     calm\<lparr>Credentials_credentialsExistForPlatformAsync := (\<lambda>h m. Returned (Some storedBundle))\<rparr>"

definition worldPublishFails :: world where
  "worldPublishFails = worldAllStored\<lparr>this_publish := (\<lambda>h. Thrown (Foreign ''packager is not running''))\<rparr>"

definition worldAppIdTaken :: world where
  "worldAppIdTaken =
     worldAllStored\<lparr>Credentials_ensureAppId := (\<lambda>h m. Thrown (Foreign ''app id is taken''))\<rparr>"

definition operatorUploads :: "submission list" where
  "operatorUploads =
     [Line ''me@dev.io'', Line ''secret'', Line ''TEAM1'',
      Choice 1, Line ''missing.p12'', Line ''dist.p12'', Line '''', Choice 0]"

definition uploadedCert :: IOSCredentials where
  "uploadedCert = noCredentials\<lparr>certP12 := Some ''MII='', certPassword := Some ''''\<rparr>"

definition typedAppleId :: IOSCredentials where
  "typedAppleId = noCredentials\<lparr>appleId := Some ''me@dev.io'', password := Some ''secret'',
     teamId := Some ''TEAM1''\<rparr>"

definition operatorPicksUpload :: "submission list" where
  "operatorPicksUpload = [Choice 1, Line ''missing.p12'', Line ''dist.p12'', Line '''']"



section \<open>Running asynchronous computations\<close>

lemma await_cases:
  assumes "await m f h ins = (r, es, ins')"
  obtains (ret) a es1 ins1 es2 where "m h ins = (Returned a, es1, ins1)"
      "f a (h @ es1) ins1 = (r, es2, ins')" "es = es1 @ es2"
  | (thr) e where "m h ins = (Thrown e, es, ins')" "r = Thrown e"
  | (pen) "m h ins = (Pending, es, ins')" "r = Pending"
  using assms by (auto simp: await_def split: prod.splits outcome.splits)

lemma tryCatch_cases:
  assumes "tryCatch m f h ins = (r, es, ins')"
  obtains (caught) e es1 ins1 es2 where "m h ins = (Thrown e, es1, ins1)"
      "f e (h @ es1) ins1 = (r, es2, ins')" "es = es1 @ es2"
  | (ret) a where "m h ins = (Returned a, es, ins')" "r = Returned a"
  | (pen) "m h ins = (Pending, es, ins')" "r = Pending"
  using assms by (auto simp: tryCatch_def split: prod.splits outcome.splits)

lemma call_eq:
  "call f ev h ins = (r, es, ins') \<longleftrightarrow> f h = r \<and> es = [ev r] \<and> ins' = ins"
  by (auto simp: call_def Let_def)

lemma return_eq:
  "return a h ins = (r, es, ins') \<longleftrightarrow> r = Returned a \<and> es = [] \<and> ins' = ins"
  by (auto simp: return_def)

lemma throw_eq:
  "throw e h ins = (r, es, ins') \<longleftrightarrow> r = Thrown e \<and> es = [] \<and> ins' = ins"
  by (auto simp: throw_def)

lemma consoleLog_eq:
  "consoleLog s h ins = (r, es, ins') \<longleftrightarrow>
     r = Returned () \<and> es = [ConsoleLog s] \<and> ins' = ins"
  by (auto simp: consoleLog_def)

lemmas service_calls =
  getPublishInfoAsync_def credentialsExistForPlatformAsync_def
  validateCredentialsForPlatform_def updateCredentialsForPlatform_def
  fetchAppleCertificates_def fetchPushCertificates_def ensureAppId_def readFile_def
  checkPackagerStatus_def checkStatus_def publish_def build_def

lemmas run_eqs = call_eq return_eq throw_eq consoleLog_eq

text \<open>Evaluating a run in a concrete world.\<close>

lemmas eval_defs =
  await_def tryCatch_def call_def return_def throw_def consoleLog_def Let_def service_calls
  answer_def validateAny_def filterNone_def whenAlways_def nonEmpty_def validateP12Path_def
  filterP12Path_def manageChoices_def

section \<open>The prompt subsystem emits interaction events only\<close>

lemma ask_all:
  assumes v: "\<And>s h' r vs. qvalidate q s h' = (r, vs) \<Longrightarrow> list_all P vs"
    and a: "\<And>x. P (Asked (qname q) x)"
  shows "ask q h ins = (r, es, ins') \<Longrightarrow> list_all P es"
proof (induction ins arbitrary: h r es ins')
  case Nil
  then show ?case using a by auto
next
  case (Cons x xs)
  show ?case
  proof (cases "accepts (qtype q) x")
    case (Text s)
    obtain r0 vs where q: "qvalidate q (qfilter q s) (h @ [Asked (qname q) (Some x)]) = (r0, vs)"
      by (cases "qvalidate q (qfilter q s) (h @ [Asked (qname q) (Some x)])")
    from v[OF q] have vs: "list_all P vs" .
    show ?thesis
    proof (cases r0)
      case (Returned ok)
      show ?thesis
      proof (cases ok)
        case True
        with Cons.prems Text q Returned a vs show ?thesis by auto
      next
        case False
        obtain r1 es1 i1
          where rec: "ask q (h @ Asked (qname q) (Some x) # vs) xs = (r1, es1, i1)"
          by (cases "ask q (h @ Asked (qname q) (Some x) # vs) xs")
        from Cons.IH[OF rec] have "list_all P es1" .
        with Cons.prems Text q Returned False a vs rec show ?thesis by auto
      qed
    next
      case (Thrown e)
      with Cons.prems Text q a vs show ?thesis by auto
    next
      case Pending
      with Cons.prems Text q a vs show ?thesis by auto
    qed
  next
    case (Picked v)
    with Cons.prems a show ?thesis by auto
  next
    case Rejected
    obtain r1 es1 i1 where rec: "ask q (h @ [Asked (qname q) (Some x)]) xs = (r1, es1, i1)"
      by (cases "ask q (h @ [Asked (qname q) (Some x)]) xs")
    from Cons.IH[OF rec] have "list_all P es1" .
    with Cons.prems Rejected a rec show ?thesis by auto
  qed
qed

lemma prompt_all:
  assumes "\<And>q s h' r vs. q \<in> set qs \<Longrightarrow> qvalidate q s h' = (r, vs) \<Longrightarrow> list_all P vs"
    and "\<And>q x. q \<in> set qs \<Longrightarrow> P (Asked (qname q) x)"
  shows "prompt qs answers h ins = (r, es, ins') \<Longrightarrow> list_all P es"
  using assms
proof (induction qs arbitrary: answers h ins r es ins')
  case Nil
  then show ?case by auto
next
  case (Cons q qs)
  have tl_v: "list_all P vs" if "q' \<in> set qs" "qvalidate q' s h' = (r, vs)" for q' s h' r vs
    using Cons.prems(2)[of q' s h' r vs] that by simp
  have tl_a: "P (Asked (qname q') x)" if "q' \<in> set qs" for q' x
    using Cons.prems(3)[of q' x] that by simp
  show ?case
  proof (cases "qwhen q answers")
    case False
    with Cons.prems(1) have "prompt qs answers h ins = (r, es, ins')" by simp
    then show ?thesis using tl_v tl_a by (rule Cons.IH)
  next
    case True
    obtain r0 es0 i0 where a: "ask q h ins = (r0, es0, i0)" by (cases "ask q h ins")
    have es0: "list_all P es0"
    proof (rule ask_all[OF _ _ a])
      show "list_all P vs" if "qvalidate q s h' = (r, vs)" for s h' r vs
        using Cons.prems(2)[of q s h' r vs] that by simp
      show "P (Asked (qname q) x)" for x
        using Cons.prems(3)[of q x] by simp
    qed
    show ?thesis
    proof (cases r0)
      case (Returned v)
      obtain r1 es1 i1
        where p: "prompt qs (answers(qname q \<mapsto> v)) (h @ es0) i0 = (r1, es1, i1)"
        by (cases "prompt qs (answers(qname q \<mapsto> v)) (h @ es0) i0")
      from p tl_v tl_a have "list_all P es1" by (rule Cons.IH)
      with Cons.prems(1) True a Returned p es0 show ?thesis by auto
    next
      case (Thrown e)
      with Cons.prems(1) True a es0 show ?thesis by auto
    next
      case Pending
      with Cons.prems(1) True a es0 show ?thesis by auto
    qed
  qed
qed

lemma validateP12Path_interaction:
  "validateP12Path w s h = (r, vs) \<Longrightarrow> list_all interaction vs"
  by (auto simp: validateP12Path_def split: outcome.splits)

lemma prompt_push_interaction:
  assumes "prompt (pushCertQuestions w) a h ins = (r, es, ins')"
  shows "list_all interaction es"
proof (rule prompt_all[OF _ _ assms])
  show "list_all interaction vs"
    if "q \<in> set (pushCertQuestions w)" "qvalidate q s h' = (r, vs)" for q s h' r vs
    using that
    by (auto simp: pushCertQuestions_def managePushCertificatesQ_def pushPathQ_def
          pushPasswordQ_def validateAny_def dest: validateP12Path_interaction)
  show "interaction (Asked (qname q) x)" for q x by simp
qed

lemma interaction_notin:
  "list_all interaction es \<Longrightarrow> \<not> interaction e \<Longrightarrow> (e \<in> set es) = False"
  by (auto simp: list_all_iff)

section \<open>The shape of the collection flows\<close>

lemma ask_first: "ask q h ins = (r, es, ins') \<Longrightarrow> \<exists>x rest. es = Asked (qname q) x # rest"
  by (cases ins) (auto split: accepted.splits prod.splits outcome.splits if_splits)

lemma ask_result:
  assumes v: "\<And>s h' e. fst (qvalidate q s h') \<noteq> Thrown e"
    and t: "qtype q = InputQ \<or> qtype q = PasswordQ"
  shows "ask q h ins = (r, es, ins') \<Longrightarrow>
         (\<forall>e. r \<noteq> Thrown e) \<and>
         (\<forall>val. r = Returned val \<longrightarrow>
            (\<exists>s h'. val = VStr (qfilter q s) \<and> fst (qvalidate q (qfilter q s) h') = Returned True))"
proof (induction ins arbitrary: h r es ins')
  case Nil
  then show ?case by auto
next
  case (Cons x xs)
  show ?case
  proof (cases "accepts (qtype q) x")
    case (Text s)
    obtain r0 vs where q: "qvalidate q (qfilter q s) (h @ [Asked (qname q) (Some x)]) = (r0, vs)"
      by (cases "qvalidate q (qfilter q s) (h @ [Asked (qname q) (Some x)])")
    have nt: "r0 \<noteq> Thrown e" for e
      using v[of "qfilter q s" "h @ [Asked (qname q) (Some x)]" e] q by simp
    show ?thesis
    proof (cases r0)
      case (Returned ok)
      show ?thesis
      proof (cases ok)
        case True
        have "\<exists>s0 h'. VStr (qfilter q s) = VStr (qfilter q s0) \<and>
                fst (qvalidate q (qfilter q s0) h') = Returned True"
          using q Returned True by (metis fst_conv)
        moreover have "r = Returned (VStr (qfilter q s))"
          using Cons.prems Text q Returned True by simp
        ultimately show ?thesis by simp
      next
        case False
        obtain r1 es1 i1
          where rec: "ask q (h @ Asked (qname q) (Some x) # vs) xs = (r1, es1, i1)"
          by (cases "ask q (h @ Asked (qname q) (Some x) # vs) xs")
        from Cons.IH[OF rec] Cons.prems Text q Returned False rec show ?thesis by auto
      qed
    next
      case (Thrown e)
      with nt[of e] show ?thesis by simp
    next
      case Pending
      with Cons.prems Text q show ?thesis by auto
    qed
  next
    case (Picked val)
    with t show ?thesis by (cases x) auto
  next
    case Rejected
    obtain r1 es1 i1 where rec: "ask q (h @ [Asked (qname q) (Some x)]) xs = (r1, es1, i1)"
      by (cases "ask q (h @ [Asked (qname q) (Some x)]) xs")
    from Cons.IH[OF rec] Cons.prems Rejected rec show ?thesis by auto
  qed
qed

lemma ask_rawlist_not_thrown:
  assumes t: "qtype q = RawlistQ cs"
  shows "ask q h ins = (r, es, ins') \<Longrightarrow> r \<noteq> Thrown e"
proof (induction ins arbitrary: h r es ins')
  case Nil
  then show ?case by auto
next
  case (Cons x xs)
  show ?case
  proof (cases "accepts (qtype q) x")
    case (Text s)
    with t show ?thesis by (cases x) (auto split: if_splits)
  next
    case (Picked val)
    with Cons.prems show ?thesis by auto
  next
    case Rejected
    obtain r1 es1 i1 where rec: "ask q (h @ [Asked (qname q) (Some x)]) xs = (r1, es1, i1)"
      by (cases "ask q (h @ [Asked (qname q) (Some x)]) xs")
    from Cons.IH[OF rec] Cons.prems Rejected rec show ?thesis by auto
  qed
qed

lemma prompt_Cons_cases:
  assumes "prompt (q # qs) a h ins = (r, es, ins')"
  obtains (skipped) "\<not> qwhen q a" "prompt qs a h ins = (r, es, ins')"
  | (answered) v es1 i1 es2 where "qwhen q a" "ask q h ins = (Returned v, es1, i1)"
      "prompt qs (a(qname q \<mapsto> v)) (h @ es1) i1 = (r, es2, ins')" "es = es1 @ es2"
  | (thrown) e where "qwhen q a" "ask q h ins = (Thrown e, es, ins')" "r = Thrown e"
  | (waiting) "qwhen q a" "ask q h ins = (Pending, es, ins')" "r = Pending"
  using assms by (auto split: if_splits prod.splits outcome.splits)

lemma prompt_Nil_eq:
  "prompt [] a h ins = (r, es, ins') \<longleftrightarrow> r = Returned a \<and> es = [] \<and> ins' = ins"
  by auto

lemma ask_not_thrown:
  assumes v: "\<And>s h' e. fst (qvalidate q s h') \<noteq> Thrown e"
  shows "ask q h ins = (r, es, ins') \<Longrightarrow> r \<noteq> Thrown e"
proof (cases "qtype q")
  case InputQ
  then show "ask q h ins = (r, es, ins') \<Longrightarrow> r \<noteq> Thrown e"
    using ask_result[of q h ins r es ins'] v by blast
next
  case PasswordQ
  then show "ask q h ins = (r, es, ins') \<Longrightarrow> r \<noteq> Thrown e"
    using ask_result[of q h ins r es ins'] v by blast
next
  case (RawlistQ cs)
  then show "ask q h ins = (r, es, ins') \<Longrightarrow> r \<noteq> Thrown e"
    by (rule ask_rawlist_not_thrown)
qed

lemma prompt_not_thrown:
  assumes "\<And>q s h' e. q \<in> set qs \<Longrightarrow> fst (qvalidate q s h') \<noteq> Thrown e"
  shows "prompt qs a h ins = (r, es, ins') \<Longrightarrow> r \<noteq> Thrown e"
  using assms
proof (induction qs arbitrary: a h ins r es ins')
  case Nil
  then show ?case by auto
next
  case (Cons q qs)
  have tl: "fst (qvalidate q' s h') \<noteq> Thrown e'" if "q' \<in> set qs" for q' s h' e'
    using Cons.prems(2)[of q' s h' e'] that by simp
  have hd: "fst (qvalidate q s h') \<noteq> Thrown e'" for s h' e'
    using Cons.prems(2)[of q s h' e'] by simp
  from Cons.prems(1) show ?case
  proof (cases rule: prompt_Cons_cases)
    case skipped
    from skipped(2) tl show ?thesis by (rule Cons.IH)
  next
    case (answered v es1 i1 es2)
    from answered(3) tl show ?thesis by (rule Cons.IH)
  next
    case (thrown e')
    with ask_not_thrown[OF hd thrown(2)] show ?thesis by simp
  next
    case waiting
    then show ?thesis by simp
  qed
qed

lemma prompt_keeps:
  "prompt qs a h ins = (Returned a', es, ins') \<Longrightarrow> n \<notin> qname ` set qs \<Longrightarrow> a' n = a n"
proof (induction qs arbitrary: a h ins es ins')
  case Nil
  then show ?case by auto
next
  case (Cons q qs)
  from Cons.prems(1) show ?case
  proof (cases rule: prompt_Cons_cases)
    case skipped
    with Cons.IH[OF skipped(2)] Cons.prems(2) show ?thesis by simp
  next
    case (answered v es1 i1 es2)
    with Cons.IH[OF answered(3)] Cons.prems(2) show ?thesis by auto
  next
    case (thrown e')
    then show ?thesis by simp
  next
    case waiting
    then show ?thesis by simp
  qed
qed

lemma prompt_first:
  assumes "prompt (q # qs) a h ins = (r, es, ins')" and "qwhen q a"
  shows "\<exists>x rest. es = Asked (qname q) x # rest"
  using assms(1)
proof (cases rule: prompt_Cons_cases)
  case skipped
  with assms(2) show ?thesis by simp
next
  case (answered v es1 i1 es2)
  with ask_first[OF answered(2)] show ?thesis by auto
next
  case (thrown e)
  with ask_first[OF thrown(2)] show ?thesis by auto
next
  case waiting
  with ask_first[OF waiting(2)] show ?thesis by auto
qed

lemma validateP12Path_not_thrown: "fst (validateP12Path w s h) \<noteq> Thrown e"
  by (simp add: validateP12Path_def split: outcome.splits)

lemma validateP12Path_shared: "validateP12Path w s h = (r, vs) \<Longrightarrow> list_all shared vs"
  by (auto simp: validateP12Path_def split: outcome.splits)

lemmas question_defs =
  appleIdQ_def passwordQ_def teamIdQ_def manageCertificatesQ_def certPathQ_def
  certPasswordQ_def managePushCertificatesQ_def pushPathQ_def pushPasswordQ_def

lemma prompt_phase:
  assumes run: "prompt (q # qs) a h ins = (r, es, ins')"
    and qn: "qname q = firstQuestion k"
    and w: "qwhen q a"
    and names: "\<And>q'. q' \<in> set (q # qs) \<Longrightarrow>
                  qname q' \<in> set (ownQuestions k) \<or> qname q' = ''pathToP12''"
    and vals: "\<And>q'. q' \<in> set (q # qs) \<Longrightarrow>
                  qvalidate q' = validateAny \<or> qvalidate q' = nonEmpty \<or>
                  (\<exists>w. qvalidate q' = validateP12Path w)"
  shows "promptPhase k es \<and> r \<noteq> Thrown e"
proof -
  have i: "list_all interaction es"
  proof (rule prompt_all[OF _ _ run])
    show "list_all interaction vs" if "q' \<in> set (q # qs)" "qvalidate q' s h' = (r, vs)"
      for q' s h' r vs
      using vals[OF that(1)] that(2)
      by (auto simp: validateAny_def nonEmpty_def dest: validateP12Path_interaction)
    show "interaction (Asked (qname q') x)" for q' x by simp
  qed
  have s: "list_all (stepEvent k) es"
  proof (rule prompt_all[OF _ _ run])
    show "list_all (stepEvent k) vs" if "q' \<in> set (q # qs)" "qvalidate q' s h' = (r, vs)"
      for q' s h' r vs
      using vals[OF that(1)] that(2)
      by (auto simp: validateAny_def nonEmpty_def stepEvent_def list_all_iff
            dest!: validateP12Path_shared)
    show "stepEvent k (Asked (qname q') x)" if "q' \<in> set (q # qs)" for q' x
      using names[OF that] by (auto simp: stepEvent_def)
  qed
  have c: "collects k es"
    using prompt_first[OF run w] qn by (auto simp: collects_def)
  have t: "r \<noteq> Thrown e"
  proof (rule prompt_not_thrown[OF _ run])
    show "fst (qvalidate q' s h') \<noteq> Thrown e'" if "q' \<in> set (q # qs)" for q' s h' e'
      using vals[OF that]
      by (auto simp: validateAny_def nonEmpty_def validateP12Path_not_thrown)
  qed
  from i s c t show ?thesis by (simp add: promptPhase_def)
qed

lemma prompt_appleId:
  assumes "prompt appleIdQuestions Map.empty h ins = (r, es, ins')"
  shows "promptPhase AppleId es \<and> r \<noteq> Thrown e"
  by (rule prompt_phase[OF assms[unfolded appleIdQuestions_def]])
     (auto simp: question_defs whenAlways_def)

lemma prompt_cert:
  assumes "prompt (certQuestions w) Map.empty h ins = (r, es, ins')"
  shows "promptPhase Cert es \<and> r \<noteq> Thrown e"
  by (rule prompt_phase[OF assms[unfolded certQuestions_def]])
     (auto simp: question_defs whenAlways_def)

lemma prompt_push:
  assumes "prompt (pushCertQuestions w) Map.empty h ins = (r, es, ins')"
  shows "promptPhase Push es \<and> r \<noteq> Thrown e"
  by (rule prompt_phase[OF assms[unfolded pushCertQuestions_def]])
     (auto simp: question_defs whenAlways_def)

lemma prompt_appleId_answers:
  assumes "prompt appleIdQuestions Map.empty h ins = (Returned a, es, ins')"
  shows "\<exists>s. a ''appleId'' = Some (VStr s) \<and> s \<noteq> []"
  using assms unfolding appleIdQuestions_def
proof (cases rule: prompt_Cons_cases)
  case skipped
  then show ?thesis by (simp add: appleIdQ_def whenAlways_def)
next
  case (answered v es1 i1 es2)
  have "\<exists>s h'. v = VStr (qfilter appleIdQ s) \<and>
          fst (qvalidate appleIdQ (qfilter appleIdQ s) h') = Returned True"
    using ask_result[OF _ _ answered(2)] by (auto simp: appleIdQ_def nonEmpty_def)
  then obtain s where v: "v = VStr s" "s \<noteq> []"
    by (auto simp: appleIdQ_def nonEmpty_def filterNone_def)
  have "a ''appleId'' = (Map.empty(qname appleIdQ \<mapsto> v)) ''appleId''"
    by (rule prompt_keeps[OF answered(3)]) (auto simp: question_defs)
  with v show ?thesis by (simp add: appleIdQ_def)
qed simp_all

lemma only_simps:
  "only AppleId (noCredentials\<lparr>appleId := Some s, password := x, teamId := y\<rparr>)"
  "only Cert (noCredentials\<lparr>certP12 := Some s, certPassword := x\<rparr>)"
  "only Push (noCredentials\<lparr>pushP12 := Some s, pushPassword := x\<rparr>)"
  by (simp_all add: only_def noCredentials_def)

lemma prompt_appleId_full:
  assumes "prompt appleIdQuestions Map.empty h ins = (r, es, ins')"
  shows "promptPhase AppleId es \<and> (\<forall>e. r \<noteq> Thrown e) \<and>
         (\<forall>a. r = Returned a \<longrightarrow> (\<exists>s. a ''appleId'' = Some (VStr s) \<and> s \<noteq> []))"
  using prompt_appleId[OF assms] prompt_appleId_answers assms by blast

lemmas unfold_io =
  await_def tryCatch_def call_def return_def throw_def consoleLog_def Let_def service_calls

lemma await_consoleLog:
  "await (consoleLog s) k h ins = (r, es, ins') \<longleftrightarrow>
     (\<exists>es'. k () (h @ [ConsoleLog s]) ins = (r, es', ins') \<and> es = ConsoleLog s # es')"
  by (auto simp: await_def consoleLog_def split: prod.splits)

lemma appleId_tail:
  assumes "await (tryCatch
                (validateCredentialsForPlatform w ''ios'' ''appleId'' (Some c) m)
                (\<lambda>e. if isXDLError e then throw (CommandError (code e) (message e))
                      else throw e)) (\<lambda>_.
           await (updateCredentialsForPlatform w ''ios'' c m) (\<lambda>_. return ())) h ins
             = (r, tail, ins')"
    and "only AppleId c"
  shows "appleIdTail m r tail"
proof (cases "Credentials_validateCredentialsForPlatform w h ''ios'' ''appleId'' (Some c) m")
  case (Returned v)
  with assms show ?thesis
    by (cases "Credentials_updateCredentialsForPlatform w
          (h @ [ValidateCredentialsForPlatform ''ios'' ''appleId'' (Some c) m (Returned v)])
          ''ios'' c m")
       (auto simp: unfold_io intro: appleIdTail.intros)
next
  case (Thrown e)
  with assms appleIdTail.rejected[of c m e] show ?thesis
    by (cases "isXDLError e") (auto simp: unfold_io surfaced_def)
next
  case Pending
  with assms show ?thesis
    by (auto simp: unfold_io intro: appleIdTail.intros)
qed

lemma askForAppleId_shape:
  assumes "askForAppleId w m h ins = (r, es, ins')"
  shows "appleIdTrace m r es"
proof -
  let ?h = "h @ [ConsoleLog '''', ConsoleLog appleIdNotice]"
  from assms obtain es2 where es: "es = ConsoleLog '''' # ConsoleLog appleIdNotice # es2"
    and run: "await (prompt appleIdQuestions Map.empty) (\<lambda>answers.
       let credentials = noCredentials
             \<lparr>appleId := strOf (answer answers ''appleId''),
              password := strOf (answer answers ''password''),
              teamId := strOf (answer answers ''teamId'')\<rparr>
       in
       await (tryCatch
                (validateCredentialsForPlatform w ''ios'' ''appleId'' (Some credentials) m)
                (\<lambda>e. if isXDLError e then throw (CommandError (code e) (message e))
                      else throw e)) (\<lambda>_.
       await (updateCredentialsForPlatform w ''ios'' credentials m) (\<lambda>_.
       return ()))) ?h ins = (r, es2, ins')"
    by (auto simp: askForAppleId_def await_consoleLog)
  from run show ?thesis
  proof (cases rule: await_cases)
    case (ret a pes i1 tail)
    from prompt_appleId_full[OF ret(1)] obtain s
      where p: "promptPhase AppleId pes" and a: "a ''appleId'' = Some (VStr s)"
      by auto
    let ?c = "noCredentials
             \<lparr>appleId := strOf (answer a ''appleId''),
              password := strOf (answer a ''password''),
              teamId := strOf (answer a ''teamId'')\<rparr>"
    have "only AppleId ?c" using a by (simp add: answer_def only_def noCredentials_def)
    with ret(2) have "appleIdTail m r tail"
      by (simp only: Let_def) (rule appleId_tail)
    with p show ?thesis unfolding es ret(3) by (rule appleIdTrace.intros)
  next
    case (thr e)
    with prompt_appleId_full[OF thr(1)] show ?thesis by simp
  next
    case pen
    from prompt_appleId_full[OF pen(1)] have "promptPhase AppleId es2" by simp
    from appleIdTrace.intros[OF this appleIdTail.waiting] show ?thesis
      unfolding es pen(2) by simp
  qed
qed

lemma cert_tail:
  assumes "tryCatch
       (if truthy (answer a ''manageCertificates'')
        then await (fetchAppleCertificates w m) (\<lambda>_. return ())
        else
          await (readFile w (answer a ''pathToP12'')) (\<lambda>p12Data.
            let credentials = noCredentials
                  \<lparr>certP12 := Some (Buffer_toBase64 w p12Data),
                   certPassword := strOf (answer a ''certPassword'')\<rparr>
            in
            await (tryCatch
                     (validateCredentialsForPlatform w ''ios'' ''cert'' (Some credentials) m)
                     (\<lambda>e. if isXDLError e then throw (CommandError (code e) certNotInPortal)
                           else throw e)) (\<lambda>_.
            await (updateCredentialsForPlatform w ''ios'' credentials m) (\<lambda>_.
            return ()))))
       (\<lambda>e. if isXDLError e then throw (CommandError (code e) failedFetchingUploading)
             else throw e) h ins = (r, tail, ins')"
  shows "certTail w m (answer a ''pathToP12'') r tail"
proof (cases "truthy (answer a ''manageCertificates'')")
  case True
  let ?p = "answer a ''pathToP12''"
  show ?thesis
  proof (cases "Credentials_fetchAppleCertificates w h m")
    case (Returned v)
    with assms True show ?thesis by (auto simp: unfold_io intro: certTail.intros)
  next
    case (Thrown e)
    with assms True certTail.fetch_failed[where w=w and m=m and p="?p" and e=e] show ?thesis
      by (cases "isXDLError e") (auto simp: unfold_io wrapGeneric_def)
  next
    case Pending
    with assms True show ?thesis by (auto simp: unfold_io intro: certTail.intros)
  qed
next
  case False
  let ?p = "answer a ''pathToP12''"
  show ?thesis
  proof (cases "fs_readFile w h ?p")
    case (Returned d)
    let ?c = "noCredentials\<lparr>certP12 := Some (Buffer_toBase64 w d),
                certPassword := strOf (answer a ''certPassword'')\<rparr>"
    have c: "only Cert ?c" "certP12 ?c = Some (Buffer_toBase64 w d)"
      by (simp_all add: only_def noCredentials_def)
    let ?h1 = "h @ [FsReadFile ?p (Returned d)]"
    show ?thesis
    proof (cases "Credentials_validateCredentialsForPlatform w ?h1 ''ios'' ''cert'' (Some ?c) m")
      case v: (Returned v)
      let ?h2 = "?h1 @ [ValidateCredentialsForPlatform ''ios'' ''cert'' (Some ?c) m (Returned v)]"
      show ?thesis
      proof (cases "Credentials_updateCredentialsForPlatform w ?h2 ''ios'' ?c m")
        case (Returned u)
        with assms False \<open>fs_readFile w h ?p = Returned d\<close> v
          certTail.updated[OF c, where m=m and p="?p" and v=v]
        show ?thesis by (auto simp: unfold_io)
      next
        case (Thrown e)
        with assms False \<open>fs_readFile w h ?p = Returned d\<close> v
          certTail.update_failed[OF c, where m=m and p="?p" and v=v and e=e]
        show ?thesis by (cases "isXDLError e") (auto simp: unfold_io wrapGeneric_def)
      next
        case Pending
        with assms False \<open>fs_readFile w h ?p = Returned d\<close> v
          certTail.update_hung[OF c, where m=m and p="?p" and v=v]
        show ?thesis by (auto simp: unfold_io)
      qed
    next
      case (Thrown e)
      with assms False Returned certTail.rejected[OF c, where m=m and p="?p" and e=e]
      show ?thesis by (cases "isXDLError e") (auto simp: unfold_io wrapNotInPortal_def)
    next
      case Pending
      with assms False Returned certTail.validation_hung[OF c, where m=m and p="?p"]
      show ?thesis by (auto simp: unfold_io)
    qed
  next
    case (Thrown e)
    with assms False certTail.read_failed[where w=w and m=m and p="?p" and e=e] show ?thesis
      by (cases "isXDLError e") (auto simp: unfold_io wrapGeneric_def)
  next
    case Pending
    with assms False show ?thesis by (auto simp: unfold_io intro: certTail.intros)
  qed
qed

lemma askForCerts_shape:
  assumes "askForCerts w m h ins = (r, es, ins')"
  shows "certTrace w m r es"
proof -
  from assms obtain es2 where es: "es = ConsoleLog '''' # es2"
    and run: "await (prompt (certQuestions w) Map.empty) (\<lambda>answers.
     tryCatch
       (if truthy (answer answers ''manageCertificates'')
        then await (fetchAppleCertificates w m) (\<lambda>_. return ())
        else
          await (readFile w (answer answers ''pathToP12'')) (\<lambda>p12Data.
            let credentials = noCredentials
                  \<lparr>certP12 := Some (Buffer_toBase64 w p12Data),
                   certPassword := strOf (answer answers ''certPassword'')\<rparr>
            in
            await (tryCatch
                     (validateCredentialsForPlatform w ''ios'' ''cert'' (Some credentials) m)
                     (\<lambda>e. if isXDLError e then throw (CommandError (code e) certNotInPortal)
                           else throw e)) (\<lambda>_.
            await (updateCredentialsForPlatform w ''ios'' credentials m) (\<lambda>_.
            return ()))))
       (\<lambda>e. if isXDLError e then throw (CommandError (code e) failedFetchingUploading)
             else throw e)) (h @ [ConsoleLog '''']) ins = (r, es2, ins')"
    by (auto simp: askForCerts_def await_consoleLog)
  from run show ?thesis
  proof (cases rule: await_cases)
    case (ret a pes i1 tail)
    from prompt_cert[OF ret(1)] have p: "promptPhase Cert pes" by simp
    from ret(2) have "certTail w m (answer a ''pathToP12'') r tail" by (rule cert_tail)
    with p show ?thesis unfolding es ret(3) by (rule certTrace.intros)
  next
    case (thr e)
    with prompt_cert[OF thr(1), of e] show ?thesis by simp
  next
    case pen
    from prompt_cert[OF pen(1)] have "promptPhase Cert es2" by simp
    from certTrace.intros[OF this certTail.waiting] show ?thesis
      unfolding es pen(2) by simp
  qed
qed

lemma push_tail:
  assumes "await (tryCatch
              (if truthy (answer a ''managePushCertificates'')
               then fetchPushCertificates w m
               else
                 await (readFile w (answer a ''pathToP12'')) (\<lambda>p12Data.
                   let credentials = noCredentials
                         \<lparr>pushP12 := Some (Buffer_toBase64 w p12Data),
                          pushPassword := strOf (answer a ''pushPassword'')\<rparr>
                   in
                   await (tryCatch
                            (validateCredentialsForPlatform w ''ios'' ''push''
                               (Some credentials) m)
                            (\<lambda>e. throw (XDLError CREDENTIAL_ERROR pushCertNotInPortal)))
                     (\<lambda>isValid.
                   await (updateCredentialsForPlatform w ''ios'' credentials m) (\<lambda>_.
                   return isValid))))
              (\<lambda>e. if \<not> isXDLError e then return (VBool False) else throw e)) (\<lambda>isValid.
     if \<not> truthy isValid then throw (XDLError CREDENTIAL_ERROR failedFetchingUploading)
     else return ()) h ins = (r, tail, ins')"
  shows "pushTail w m (answer a ''pathToP12'') r tail"
proof (cases "truthy (answer a ''managePushCertificates'')")
  case True
  let ?p = "answer a ''pathToP12''"
  show ?thesis
  proof (cases "Credentials_fetchPushCertificates w h m")
    case (Returned v)
    with assms True pushTail.fetched[where w=w and m=m and p="?p" and v=v] show ?thesis
      by (cases "truthy v") (auto simp: unfold_io pushVerdict_def genericFailure_def)
  next
    case (Thrown e)
    with assms True pushTail.fetch_failed[where w=w and m=m and p="?p" and e=e] show ?thesis
      by (cases "isXDLError e") (auto simp: unfold_io pushCaught_def genericFailure_def)
  next
    case Pending
    with assms True show ?thesis by (auto simp: unfold_io intro: pushTail.intros)
  qed
next
  case False
  let ?p = "answer a ''pathToP12''"
  show ?thesis
  proof (cases "fs_readFile w h ?p")
    case (Returned d)
    let ?c = "noCredentials\<lparr>pushP12 := Some (Buffer_toBase64 w d),
                pushPassword := strOf (answer a ''pushPassword'')\<rparr>"
    have c: "only Push ?c" "pushP12 ?c = Some (Buffer_toBase64 w d)"
      by (simp_all add: only_def noCredentials_def)
    let ?h1 = "h @ [FsReadFile ?p (Returned d)]"
    show ?thesis
    proof (cases "Credentials_validateCredentialsForPlatform w ?h1 ''ios'' ''push'' (Some ?c) m")
      case v: (Returned v)
      let ?h2 = "?h1 @ [ValidateCredentialsForPlatform ''ios'' ''push'' (Some ?c) m (Returned v)]"
      show ?thesis
      proof (cases "Credentials_updateCredentialsForPlatform w ?h2 ''ios'' ?c m")
        case (Returned u)
        with assms False \<open>fs_readFile w h ?p = Returned d\<close> v
          pushTail.updated[OF c, where m=m and p="?p" and v=v]
        show ?thesis
          by (cases "truthy v") (auto simp: unfold_io pushVerdict_def genericFailure_def)
      next
        case (Thrown e)
        with assms False \<open>fs_readFile w h ?p = Returned d\<close> v
          pushTail.update_failed[OF c, where m=m and p="?p" and v=v and e=e]
        show ?thesis
          by (cases "isXDLError e") (auto simp: unfold_io pushCaught_def genericFailure_def)
      next
        case Pending
        with assms False \<open>fs_readFile w h ?p = Returned d\<close> v
          pushTail.update_hung[OF c, where m=m and p="?p" and v=v]
        show ?thesis by (auto simp: unfold_io)
      qed
    next
      case (Thrown e)
      with assms False Returned pushTail.rejected[OF c, where m=m and p="?p" and e=e]
      show ?thesis by (auto simp: unfold_io)
    next
      case Pending
      with assms False Returned pushTail.validation_hung[OF c, where m=m and p="?p"]
      show ?thesis by (auto simp: unfold_io)
    qed
  next
    case (Thrown e)
    with assms False pushTail.read_failed[where w=w and m=m and p="?p" and e=e] show ?thesis
      by (cases "isXDLError e") (auto simp: unfold_io pushCaught_def genericFailure_def)
  next
    case Pending
    with assms False show ?thesis by (auto simp: unfold_io intro: pushTail.intros)
  qed
qed

lemma askForPushCerts_shape:
  assumes "askForPushCerts w m h ins = (r, es, ins')"
  shows "pushTrace w m r es"
proof -
  from assms obtain es2 where es: "es = ConsoleLog '''' # es2"
    and run: "await (prompt (pushCertQuestions w) Map.empty) (\<lambda>answers.
     await (tryCatch
              (if truthy (answer answers ''managePushCertificates'')
               then fetchPushCertificates w m
               else
                 await (readFile w (answer answers ''pathToP12'')) (\<lambda>p12Data.
                   let credentials = noCredentials
                         \<lparr>pushP12 := Some (Buffer_toBase64 w p12Data),
                          pushPassword := strOf (answer answers ''pushPassword'')\<rparr>
                   in
                   await (tryCatch
                            (validateCredentialsForPlatform w ''ios'' ''push''
                               (Some credentials) m)
                            (\<lambda>e. throw (XDLError CREDENTIAL_ERROR pushCertNotInPortal)))
                     (\<lambda>isValid.
                   await (updateCredentialsForPlatform w ''ios'' credentials m) (\<lambda>_.
                   return isValid))))
              (\<lambda>e. if \<not> isXDLError e then return (VBool False) else throw e)) (\<lambda>isValid.
     if \<not> truthy isValid then throw (XDLError CREDENTIAL_ERROR failedFetchingUploading)
     else return ())) (h @ [ConsoleLog '''']) ins = (r, es2, ins')"
    by (auto simp: askForPushCerts_def await_consoleLog)
  from run show ?thesis
  proof (cases rule: await_cases)
    case (ret a pes i1 tail)
    from prompt_push[OF ret(1)] have p: "promptPhase Push pes" by simp
    from ret(2) have "pushTail w m (answer a ''pathToP12'') r tail" by (rule push_tail)
    with p show ?thesis unfolding es ret(3) by (rule pushTrace.intros)
  next
    case (thr e)
    with prompt_push[OF thr(1), of e] show ?thesis by simp
  next
    case pen
    from prompt_push[OF pen(1)] have "promptPhase Push es2" by simp
    from pushTrace.intros[OF this pushTail.waiting] show ?thesis
      unfolding es pen(2) by simp
  qed
qed


section \<open>Errors of the certificate flow\<close>

lemma interaction_rejection: "interaction ev \<Longrightarrow> rejection ev = None"
  by (cases ev) auto

lemma promptPhase_rejection:
  "promptPhase k pes \<Longrightarrow> ev \<in> set pes \<Longrightarrow> rejection ev = None"
  by (auto simp: promptPhase_def list_all_iff intro: interaction_rejection)

lemma networkDown_run:
  "askForCerts worldNetworkDown sampleMetadata [] [Choice 0]
     = (Thrown (Foreign ''socket hang up''),
        [ConsoleLog '''', Asked ''manageCertificates'' (Some (Choice 0)),
         FetchAppleCertificates sampleMetadata (Thrown (Foreign ''socket hang up''))], [])"
  by (simp add: askForCerts_def certQuestions_def question_defs worldNetworkDown_def calm_def
       eval_defs)

section \<open>Lists of events\<close>

lemma collects_simps [simp]:
  "collects k [] = False"
  "collects k (e # es) = (isAsked (firstQuestion k) e \<or> collects k es)"
  "collects k (xs @ ys) = (collects k xs \<or> collects k ys)"
  by (auto simp: collects_def)

lemma revalidates_simps [simp]:
  "revalidates k [] = False"
  "revalidates k (e # es) = (isRevalidation (validationType k) e \<or> revalidates k es)"
  "revalidates k (xs @ ys) = (revalidates k xs \<or> revalidates k ys)"
  by (auto simp: revalidates_def)

lemma validationType_inj [simp]: "validationType k = validationType k' \<longleftrightarrow> k = k'"
  by (cases k; cases k') auto

lemma validationType_eq [simp]:
  "''appleId'' = validationType k \<longleftrightarrow> k = AppleId"
  "''cert'' = validationType k \<longleftrightarrow> k = Cert"
  "''push'' = validationType k \<longleftrightarrow> k = Push"
  "validationType k = ''appleId'' \<longleftrightarrow> k = AppleId"
  "validationType k = ''cert'' \<longleftrightarrow> k = Cert"
  "validationType k = ''push'' \<longleftrightarrow> k = Push"
  by (cases k; simp)+

lemma firstQuestion_eq [simp]:
  "firstQuestion k = ''appleId'' \<longleftrightarrow> k = AppleId"
  "firstQuestion k = ''manageCertificates'' \<longleftrightarrow> k = Cert"
  "firstQuestion k = ''managePushCertificates'' \<longleftrightarrow> k = Push"
  "firstQuestion k \<noteq> ''pathToP12''"
  by (cases k; simp)+

lemma firstQuestion_own: "firstQuestion k \<in> set (ownQuestions k') \<longleftrightarrow> k = k'"
  by (cases k; cases k') auto

lemma stepEvent_collects:
  "list_all (stepEvent kind) s \<Longrightarrow> collects k s \<Longrightarrow> k = kind"
proof (induction s)
  case Nil
  then show ?case by simp
next
  case (Cons e s)
  then show ?case
    by (cases e) (auto simp: stepEvent_def firstQuestion_own)
qed

lemma stepEvent_revalidates:
  "list_all (stepEvent kind) s \<Longrightarrow> revalidates k s \<Longrightarrow> k = kind"
proof (induction s)
  case Nil
  then show ?case by simp
next
  case (Cons e s)
  show ?case
  proof (cases e)
    case (ValidateCredentialsForPlatform p k' c m out)
    with Cons show ?thesis by (cases c) (auto simp: stepEvent_def)
  qed (use Cons in \<open>auto simp: stepEvent_def\<close>)
qed

lemma interaction_no_revalidation:
  "list_all interaction s \<Longrightarrow> \<not> revalidates k s"
  by (induction s) (auto elim: interaction.elims)

lemma updatesGuarded_interaction:
  "list_all interaction s \<Longrightarrow> updatesGuarded prev s"
proof (induction s arbitrary: prev)
  case Nil
  then show ?case by simp
next
  case (Cons e s)
  then show ?case by (cases e) auto
qed

lemma updatesGuarded_append:
  "updatesGuarded prev (xs @ ys) \<longleftrightarrow>
     updatesGuarded prev xs \<and> updatesGuarded (if xs = [] then prev else Some (last xs)) ys"
proof (induction xs arbitrary: prev)
  case Nil
  then show ?case by simp
next
  case (Cons e xs)
  then show ?case by (cases e) auto
qed

lemma updatesGuarded_Cons_other:
  "\<not> (\<exists>p c m out. e = UpdateCredentialsForPlatform p c m out) \<Longrightarrow>
     updatesGuarded prev (e # es) = updatesGuarded (Some e) es"
  by (cases e) auto

section \<open>What each step leaves in the trace\<close>

lemma interaction_not_done:
  "list_all interaction s \<Longrightarrow> \<not> list_ex appleIdDone s \<and> \<not> list_ex certDone s"
  by (induction s) (auto elim: interaction.elims)

lemma validatedBy_kind [simp]:
  "only kind c \<Longrightarrow>
   validatedBy (Some (ValidateCredentialsForPlatform p (validationType kind) (Some c) m
     (Returned v))) p c m"
  by (cases kind) auto

lemma appleIdTail_facts:
  assumes "appleIdTail m r tail"
  shows "list_all (stepEvent AppleId) tail \<and> (\<forall>prev. updatesGuarded prev tail) \<and>
    (\<forall>k. \<not> collects k tail) \<and> (\<forall>k. \<not> revalidates k tail) \<and>
    (list_ex appleIdDone tail \<longleftrightarrow> r = Returned ()) \<and> \<not> list_ex certDone tail"
  using assms
proof cases
  case waiting
  then show ?thesis by simp
next
  case (rejected c e)
  then show ?thesis by (simp add: stepEvent_def)
next
  case (validation_hung c)
  then show ?thesis by (simp add: stepEvent_def)
next
  case (validated c v)
  with validatedBy_kind[of AppleId c "''ios''" m v] show ?thesis
    by (cases r) (simp_all add: stepEvent_def only_def)
qed

lemma only_unique [simp]: "only k c \<Longrightarrow> only k' c = (k' = k)"
  by (cases k; cases k') (auto simp: only_def)

lemma certTail_facts:
  assumes "certTail w m p r tail"
  shows "list_all (stepEvent Cert) tail \<and> (\<forall>prev. updatesGuarded prev tail) \<and>
    (\<forall>k. \<not> collects k tail) \<and> (\<forall>k. \<not> revalidates k tail) \<and>
    (list_ex certDone tail \<longleftrightarrow> r = Returned ()) \<and> \<not> list_ex appleIdDone tail"
  using assms validatedBy_kind[of Cert]
  by cases (simp_all add: stepEvent_def)

lemma pushTail_facts:
  assumes "pushTail w m p r tail"
  shows "list_all (stepEvent Push) tail \<and> (\<forall>prev. updatesGuarded prev tail) \<and>
    (\<forall>k. \<not> collects k tail) \<and> (\<forall>k. \<not> revalidates k tail) \<and>
    \<not> list_ex certDone tail \<and> \<not> list_ex appleIdDone tail"
  using assms validatedBy_kind[of Push]
  by cases (simp_all add: stepEvent_def)

lemma stepEvent_shared [simp]: "stepEvent k (ConsoleLog s)"
  by (simp add: stepEvent_def)

lemma promptPhase_facts:
  assumes "promptPhase kind pes"
  shows "list_all (stepEvent kind) pes \<and> (\<forall>prev. updatesGuarded prev pes) \<and>
    (\<forall>k. collects k pes = (k = kind)) \<and> (\<forall>k. \<not> revalidates k pes) \<and>
    \<not> list_ex appleIdDone pes \<and> \<not> list_ex certDone pes"
  using assms stepEvent_collects[of kind pes] interaction_no_revalidation[of pes]
    updatesGuarded_interaction[of pes] interaction_not_done[of pes]
  by (auto simp: promptPhase_def)

lemma appleIdTrace_outcome:
  assumes "appleIdTrace m r s"
  shows "stepOutcome AppleId False s \<and> (list_ex appleIdDone s \<longleftrightarrow> r = Returned ()) \<and>
         \<not> list_ex certDone s"
  using assms
proof cases
  case (1 pes tail)
  from promptPhase_facts[OF 1(2)] appleIdTail_facts[OF 1(3)] show ?thesis
    unfolding stepOutcome_def 1(1) by (simp add: updatesGuarded_append)
qed

lemma certTrace_outcome:
  assumes "certTrace w m r s"
  shows "stepOutcome Cert False s \<and> (list_ex certDone s \<longleftrightarrow> r = Returned ()) \<and>
         \<not> list_ex appleIdDone s"
  using assms
proof cases
  case (1 pes p tail)
  from promptPhase_facts[OF 1(2)] certTail_facts[OF 1(3)] show ?thesis
    unfolding stepOutcome_def 1(1) by (simp add: updatesGuarded_append)
qed

lemma pushTrace_outcome:
  assumes "pushTrace w m r s"
  shows "stepOutcome Push False s \<and> \<not> list_ex certDone s \<and> \<not> list_ex appleIdDone s"
  using assms
proof cases
  case (1 pes p tail)
  from promptPhase_facts[OF 1(2)] pushTail_facts[OF 1(3)] show ?thesis
    unfolding stepOutcome_def 1(1) by (simp add: updatesGuarded_append)
qed

lemma revalidate_eq:
  "tryCatch (await (validateCredentialsForPlatform w ''ios'' k None m) (\<lambda>_. return ()))
     (\<lambda>e. throw err) h ins = (r, s, ins') \<longleftrightarrow>
   s = [ValidateCredentialsForPlatform ''ios'' k None m
          (Credentials_validateCredentialsForPlatform w h ''ios'' k None m)] \<and>
   ins' = ins \<and>
   r = (case Credentials_validateCredentialsForPlatform w h ''ios'' k None m of
          Returned v \<Rightarrow> Returned () | Thrown e \<Rightarrow> Thrown err | Pending \<Rightarrow> Pending)"
  by (cases "Credentials_validateCredentialsForPlatform w h ''ios'' k None m")
     (auto simp: unfold_io)

lemma revalidation_outcome:
  "stepOutcome kind True [ValidateCredentialsForPlatform ''ios'' (validationType kind) None m out]"
  by (auto simp: stepOutcome_def stepEvent_def)

lemma appleIdStep_outcome:
  assumes "appleIdStep w has m h ins = (r, s, ins')"
  shows "stepOutcome AppleId has s \<and> (list_ex appleIdDone s \<longleftrightarrow> r = Returned ()) \<and>
         \<not> list_ex certDone s"
proof (cases has)
  case True
  with assms revalidation_outcome[of AppleId m] show ?thesis
    by (auto simp: appleIdStep_def revalidate_eq split: outcome.splits)
next
  case False
  with assms have "askForAppleId w m h ins = (r, s, ins')" by (simp add: appleIdStep_def)
  from appleIdTrace_outcome[OF askForAppleId_shape[OF this]] False show ?thesis by simp
qed

lemma certStep_outcome:
  assumes "certStep w has m h ins = (r, s, ins')"
  shows "stepOutcome Cert has s \<and> (list_ex certDone s \<longleftrightarrow> r = Returned ()) \<and>
         \<not> list_ex appleIdDone s"
proof (cases has)
  case True
  with assms revalidation_outcome[of Cert m] show ?thesis
    by (auto simp: certStep_def revalidate_eq split: outcome.splits)
next
  case False
  with assms have "askForCerts w m h ins = (r, s, ins')" by (simp add: certStep_def)
  from certTrace_outcome[OF askForCerts_shape[OF this]] False show ?thesis by simp
qed

lemma pushStep_outcome:
  assumes "pushStep w has m h ins = (r, s, ins')"
  shows "stepOutcome Push has s \<and> \<not> list_ex certDone s \<and> \<not> list_ex appleIdDone s"
proof (cases has)
  case True
  with assms revalidation_outcome[of Push m] show ?thesis
    by (auto simp: pushStep_def revalidate_eq split: outcome.splits)
next
  case False
  with assms have "askForPushCerts w m h ins = (r, s, ins')" by (simp add: pushStep_def)
  from pushTrace_outcome[OF askForPushCerts_shape[OF this]] False show ?thesis by simp
qed

lemma appIdStep_eq:
  "appIdStep w m h ins = (r, s, ins') \<longleftrightarrow>
   s = [EnsureAppId m (Credentials_ensureAppId w h m)] \<and> ins' = ins \<and>
   r = (case Credentials_ensureAppId w h m of
          Returned u \<Rightarrow> Returned ()
        | Thrown e \<Rightarrow> Thrown (cannotCreateAppId (bundleIdentifier m))
        | Pending \<Rightarrow> Pending)"
  by (cases "Credentials_ensureAppId w h m") (auto simp: appIdStep_def unfold_io)

lemma steps_cases:
  assumes "await (appleIdStep w a m) (\<lambda>_.
           await (certStep w b m) (\<lambda>_.
           await (appIdStep w m) (\<lambda>_.
           pushStep w c m))) h ins = (r, es, ins')"
  obtains
    (appleId) "appleIdStep w a m h ins = (r, es, ins')" "r \<noteq> Returned ()"
  | (cert) s1 i1 s2 where "appleIdStep w a m h ins = (Returned (), s1, i1)"
      "certStep w b m (h @ s1) i1 = (r, s2, ins')" "r \<noteq> Returned ()" "es = s1 @ s2"
  | (appId) s1 i1 s2 out where "appleIdStep w a m h ins = (Returned (), s1, i1)"
      "certStep w b m (h @ s1) i1 = (Returned (), s2, ins')"
      "es = s1 @ s2 @ [EnsureAppId m out]" "out \<noteq> Returned ()"
      "r = (case out of Thrown e \<Rightarrow> Thrown (cannotCreateAppId (bundleIdentifier m))
            | _ \<Rightarrow> Pending)"
  | (push) s1 i1 s2 i2 s3 where "appleIdStep w a m h ins = (Returned (), s1, i1)"
      "certStep w b m (h @ s1) i1 = (Returned (), s2, i2)"
      "pushStep w c m (h @ s1 @ s2 @ [EnsureAppId m (Returned ())]) i2 = (r, s3, ins')"
      "es = s1 @ s2 @ EnsureAppId m (Returned ()) # s3"
  using assms
proof (cases rule: await_cases)
  case one: (ret u1 s1 i1 rest1)
  from one(2) show ?thesis
  proof (cases rule: await_cases)
    case two: (ret u2 s2 i2 rest2)
    from two(2) show ?thesis
    proof (cases rule: await_cases)
      case three: (ret u3 s3 i3 s4)
      from three(1) have s3: "s3 = [EnsureAppId m (Returned ())]" and i3: "i3 = i2"
        by (auto simp: appIdStep_eq split: outcome.splits)
      show ?thesis
        by (rule push[of s1 i1 s2 i2 s4])
           (use one two three s3 i3 in auto)
    next
      case three: (thr e)
      then obtain e0 where "rest2 = [EnsureAppId m (Thrown e0)]" "i2 = ins'"
          "e = cannotCreateAppId (bundleIdentifier m)"
        by (auto simp: appIdStep_eq split: outcome.splits)
      with one two three show ?thesis
        by (intro appId[of s1 i1 s2 "Thrown e0"]) auto
    next
      case three: pen
      then have "rest2 = [EnsureAppId m Pending]" "i2 = ins'"
        by (auto simp: appIdStep_eq split: outcome.splits)
      with one two three show ?thesis
        by (intro appId[of s1 i1 s2 Pending]) auto
    qed
  next
    case two: (thr e)
    with one show ?thesis by (intro cert[of s1 i1 rest1]) auto
  next
    case two: pen
    with one show ?thesis by (intro cert[of s1 i1 rest1]) auto
  qed
next
  case (thr e)
  then show ?thesis by (intro appleId) auto
next
  case pen
  then show ?thesis by (intro appleId) auto
qed

lemma collect_cases:
  assumes "collectAndValidateCredentials w this h ins = (r, es, ins')"
  obtains
    (unread) out where "es = [GetPublishInfoAsync (projectDir this) out]"
      "\<forall>info. out \<noteq> Returned info"
      "r = (case out of Thrown e \<Rightarrow> Thrown e | _ \<Rightarrow> Pending)"
  | (config) info where "es = [GetPublishInfoAsync (projectDir this) (Returned info)]"
      "\<not> truthyField (bundleIdentifierIOS info)" "r = Thrown missingBundleIdentifier"
  | (unfetched) info out where "truthyField (bundleIdentifierIOS info)"
      "es = [GetPublishInfoAsync (projectDir this) (Returned info),
             CredentialsExistForPlatformAsync (credentialMetadataOf info) out]"
      "\<forall>x. out \<noteq> Returned x"
      "r = (case out of Thrown e \<Rightarrow> Thrown e | _ \<Rightarrow> Pending)"
  | (steps) info existing a b c rest where "truthyField (bundleIdentifierIOS info)"
      "es = GetPublishInfoAsync (projectDir this) (Returned info)
            # CredentialsExistForPlatformAsync (credentialMetadataOf info) (Returned existing)
            # rest"
      "hasCredentials (clearCredentials (options this)) existing = (a, b, c)"
      "await (appleIdStep w a (credentialMetadataOf info)) (\<lambda>_.
       await (certStep w b (credentialMetadataOf info)) (\<lambda>_.
       await (appIdStep w (credentialMetadataOf info)) (\<lambda>_.
       pushStep w c (credentialMetadataOf info))))
         (h @ [GetPublishInfoAsync (projectDir this) (Returned info),
               CredentialsExistForPlatformAsync (credentialMetadataOf info)
                 (Returned existing)]) ins = (r, rest, ins')"
  using assms unfolding collectAndValidateCredentials_def
proof (cases rule: await_cases)
  case (ret info es1 i1 es2)
  from ret(1) have es1: "es1 = [GetPublishInfoAsync (projectDir this) (Returned info)]"
    and i1: "i1 = ins"
    by (auto simp: getPublishInfoAsync_def call_eq)
  show ?thesis
  proof (cases "truthyField (bundleIdentifierIOS info)")
    case False
    with ret(2) have "es2 = []" "r = Thrown missingBundleIdentifier"
      by (cases "bundleIdentifierIOS info"; auto simp: throw_eq)+
    with ret(3) es1 False show ?thesis by (intro config[of info]) auto
  next
    case True
    then obtain bid where bid: "bundleIdentifierIOS info = Some bid" "bid \<noteq> []"
      by (cases "bundleIdentifierIOS info") auto
    let ?m = "credentialMetadataOf info"
    have m: "\<lparr>username = args_username info, experienceName = remoteFullPackageName info,
               bundleIdentifier = bid, platform = ''ios''\<rparr> = ?m"
      by (simp add: credentialMetadataOf_def bid)
    from ret(2) bid have
      "await (credentialsExistForPlatformAsync w ?m) (\<lambda>existingCredentials.
           case hasCredentials (clearCredentials (options this)) existingCredentials of
             (hasAppleId, hasCert, hasPushCert) \<Rightarrow>
         await (appleIdStep w hasAppleId ?m) (\<lambda>_.
         await (certStep w hasCert ?m) (\<lambda>_.
         await (appIdStep w ?m) (\<lambda>_.
         pushStep w hasPushCert ?m)))) (h @ es1) i1 = (r, es2, ins')"
      by (simp add: Let_def m)
    then show ?thesis
    proof (cases rule: await_cases)
      case two: (ret existing es3 i3 rest)
      from two(1) have es3: "es3 = [CredentialsExistForPlatformAsync ?m (Returned existing)]"
        and i3: "i3 = i1"
        by (auto simp: credentialsExistForPlatformAsync_def call_eq)
      obtain a b c where abc: "hasCredentials (clearCredentials (options this)) existing = (a, b, c)"
        by (cases "hasCredentials (clearCredentials (options this)) existing")
      show ?thesis
        by (rule steps[of info existing rest a b c])
           (use True ret(3) es1 i1 two es3 i3 abc in auto)
    next
      case two: (thr e)
      then have "es2 = [CredentialsExistForPlatformAsync ?m (Thrown e)]"
        by (auto simp: credentialsExistForPlatformAsync_def call_eq)
      with True ret(3) es1 two show ?thesis
        by (intro unfetched[of info "Thrown e"]) auto
    next
      case two: pen
      then have "es2 = [CredentialsExistForPlatformAsync ?m Pending]"
        by (auto simp: credentialsExistForPlatformAsync_def call_eq)
      with True ret(3) es1 two show ?thesis
        by (intro unfetched[of info Pending]) auto
    qed
  qed
next
  case (thr e)
  then show ?thesis
    by (intro unread[of "Thrown e"]) (auto simp: getPublishInfoAsync_def call_eq)
next
  case pen
  then show ?thesis
    by (intro unread[of Pending]) (auto simp: getPublishInfoAsync_def call_eq)
qed

section \<open>The paths of the workflow\<close>

lemma collect_paths:
  assumes "collectAndValidateCredentials w this h ins = (r, es, ins')"
  obtains
    (unread) out where "es = [GetPublishInfoAsync (projectDir this) out]"
      "\<forall>info. out \<noteq> Returned info"
      "r = (case out of Thrown e \<Rightarrow> Thrown e | _ \<Rightarrow> Pending)"
  | (config) info where "es = [GetPublishInfoAsync (projectDir this) (Returned info)]"
      "\<not> truthyField (bundleIdentifierIOS info)" "r = Thrown missingBundleIdentifier"
  | (unfetched) info out where "truthyField (bundleIdentifierIOS info)"
      "es = [GetPublishInfoAsync (projectDir this) (Returned info),
             CredentialsExistForPlatformAsync (credentialMetadataOf info) out]"
      "\<forall>x. out \<noteq> Returned x"
      "r = (case out of Thrown e \<Rightarrow> Thrown e | _ \<Rightarrow> Pending)"
  | (appleId) info existing a b c h0 s1 where
      "hasCredentials (clearCredentials (options this)) existing = (a, b, c)"
      "h0 = [GetPublishInfoAsync (projectDir this) (Returned info),
             CredentialsExistForPlatformAsync (credentialMetadataOf info) (Returned existing)]"
      "es = h0 @ s1"
      "appleIdStep w a (credentialMetadataOf info) (h @ h0) ins = (r, s1, ins')"
      "r \<noteq> Returned ()"
  | (cert) info existing a b c h0 s1 i1 s2 where
      "hasCredentials (clearCredentials (options this)) existing = (a, b, c)"
      "h0 = [GetPublishInfoAsync (projectDir this) (Returned info),
             CredentialsExistForPlatformAsync (credentialMetadataOf info) (Returned existing)]"
      "es = h0 @ s1 @ s2"
      "appleIdStep w a (credentialMetadataOf info) (h @ h0) ins = (Returned (), s1, i1)"
      "certStep w b (credentialMetadataOf info) (h @ h0 @ s1) i1 = (r, s2, ins')"
      "r \<noteq> Returned ()"
  | (appId) info existing a b c h0 s1 i1 s2 out where
      "hasCredentials (clearCredentials (options this)) existing = (a, b, c)"
      "h0 = [GetPublishInfoAsync (projectDir this) (Returned info),
             CredentialsExistForPlatformAsync (credentialMetadataOf info) (Returned existing)]"
      "es = h0 @ s1 @ s2 @ [EnsureAppId (credentialMetadataOf info) out]"
      "appleIdStep w a (credentialMetadataOf info) (h @ h0) ins = (Returned (), s1, i1)"
      "certStep w b (credentialMetadataOf info) (h @ h0 @ s1) i1 = (Returned (), s2, ins')"
      "out \<noteq> Returned ()"
      "r = (case out of
              Thrown e \<Rightarrow> Thrown (cannotCreateAppId (bundleIdentifier (credentialMetadataOf info)))
            | _ \<Rightarrow> Pending)"
  | (push) info existing a b c h0 s1 i1 s2 i2 s3 where
      "hasCredentials (clearCredentials (options this)) existing = (a, b, c)"
      "h0 = [GetPublishInfoAsync (projectDir this) (Returned info),
             CredentialsExistForPlatformAsync (credentialMetadataOf info) (Returned existing)]"
      "es = h0 @ s1 @ s2 @ EnsureAppId (credentialMetadataOf info) (Returned ()) # s3"
      "appleIdStep w a (credentialMetadataOf info) (h @ h0) ins = (Returned (), s1, i1)"
      "certStep w b (credentialMetadataOf info) (h @ h0 @ s1) i1 = (Returned (), s2, i2)"
      "pushStep w c (credentialMetadataOf info)
         (h @ h0 @ s1 @ s2 @ [EnsureAppId (credentialMetadataOf info) (Returned ())]) i2
           = (r, s3, ins')"
  using assms
proof (cases rule: collect_cases)
  case (unread out)
  then show ?thesis by (rule that(1))
next
  case (config info)
  then show ?thesis by (rule that(2))
next
  case (unfetched info out)
  then show ?thesis by (rule that(3))
next
  case st: (steps info existing a b c rest)
  let ?h0 = "[GetPublishInfoAsync (projectDir this) (Returned info),
             CredentialsExistForPlatformAsync (credentialMetadataOf info) (Returned existing)]"
  from st(4) show ?thesis
  proof (cases rule: steps_cases)
    case appleId
    show ?thesis
      by (rule that(4)[of existing a b c ?h0 info rest])
         (use st appleId in auto)
  next
    case (cert s1 i1 s2)
    show ?thesis
      by (rule that(5)[of existing a b c ?h0 info s1 s2 i1])
         (use st cert in auto)
  next
    case (appId s1 i1 s2 out)
    show ?thesis
      by (rule that(6)[of existing a b c ?h0 info s1 s2 out i1])
         (use st appId in auto)
  next
    case (push s1 i1 s2 i2 s3)
    show ?thesis
      by (rule that(7)[of existing a b c ?h0 info s1 s2 s3 i1 i2])
         (use st push in auto)
  qed
qed

lemma revalidation_in:
  "ev \<in> set s \<Longrightarrow> isRevalidation (validationType k) ev \<Longrightarrow> revalidates k s"
  by (auto simp: revalidates_def list_ex_iff)

lemma stepOutcome_revalidation:
  assumes "stepOutcome kind has s" and "ev \<in> set s"
    and "isRevalidation (validationType k) ev"
  shows "k = kind \<and> has"
  using assms revalidation_in[of ev s k] by (auto simp: stepOutcome_def)

lemma appleIdStep_True:
  "appleIdStep w True m h ins = (r, s, ins') \<longleftrightarrow>
   s = [ValidateCredentialsForPlatform ''ios'' ''appleId'' None m
          (Credentials_validateCredentialsForPlatform w h ''ios'' ''appleId'' None m)] \<and>
   ins' = ins \<and>
   r = (case Credentials_validateCredentialsForPlatform w h ''ios'' ''appleId'' None m of
          Returned v \<Rightarrow> Returned () | Thrown e \<Rightarrow> Thrown storedCredentialsInvalid
        | Pending \<Rightarrow> Pending)"
  by (simp add: appleIdStep_def revalidate_eq)

lemma hasCredentials_present:
  "hasCredentials clear existing =
     (present clear existing AppleId, present clear existing Cert, present clear existing Push)"
  by (cases existing) (auto simp: hasCredentials_def present_def)

lemma stepOutcome_no_registration:
  "stepOutcome kind has s \<Longrightarrow> \<not> list_ex isEnsureAppId s \<and> \<not> list_ex fetchedBundle s"
  by (auto simp: stepOutcome_def list_all_iff list_ex_iff stepEvent_def
      elim!: isEnsureAppId.elims fetchedBundle.elims)

lemma stepOutcome_elsewhere:
  "stepOutcome kind has s \<Longrightarrow>
     \<not> list_ex isEnsureAppId s \<and> \<not> list_ex fetchedBundle s \<and> \<not> list_ex appIdRegistered s"
  by (auto simp: stepOutcome_def list_all_iff list_ex_iff stepEvent_def
      elim!: isEnsureAppId.elims fetchedBundle.elims appIdRegistered.elims)

lemma stepOutcome_flows:
  "stepOutcome kind has s \<Longrightarrow>
     collects k s = (k = kind \<and> \<not> has) \<and> revalidates k s = (k = kind \<and> has)"
  by (simp add: stepOutcome_def)

lemma reached_alt:
  "reached k es =
     (case k of AppleId \<Rightarrow> list_ex fetchedBundle es | Cert \<Rightarrow> list_ex appleIdDone es
      | Push \<Rightarrow> list_ex appIdRegistered es)"
  by (cases k) simp_all

lemma step_facts:
  assumes "stepOutcome kind has s"
  shows "collects k s = (k = kind \<and> \<not> has)" "revalidates k s = (k = kind \<and> has)"
    "\<not> list_ex isEnsureAppId s" "\<not> list_ex fetchedBundle s" "\<not> list_ex appIdRegistered s"
  using assms stepOutcome_elsewhere[OF assms] by (simp_all add: stepOutcome_def)

lemma appIdRegistered_iff [simp]: "appIdRegistered (EnsureAppId m out) = (out = Returned ())"
  by (cases out) auto

lemma fetchedBundle_iff [simp]:
  "fetchedBundle (CredentialsExistForPlatformAsync m out) = (\<exists>x. out = Returned x)"
  by (cases out) auto

lemma fetchedBundle_in:
  "CredentialsExistForPlatformAsync m (Returned x) \<in> set s \<Longrightarrow> list_ex fetchedBundle s"
  by (force simp: list_ex_iff)

lemma flows_summary:
  assumes "collectAndValidateCredentials w this h ins = (r, es, ins')"
  shows "(\<forall>k. \<not> collects k es \<and> \<not> revalidates k es \<and> \<not> reached k es) \<or>
         (\<exists>m existing ks.
            CredentialsExistForPlatformAsync m (Returned existing) \<in> set es \<and>
            (\<forall>m' x. CredentialsExistForPlatformAsync m' (Returned x) \<in> set es \<longrightarrow>
               x = existing) \<and>
            (\<forall>k. collects k es =
                   (k \<in> set ks \<and> \<not> present (clearCredentials (options this)) existing k) \<and>
                 revalidates k es =
                   (k \<in> set ks \<and> present (clearCredentials (options this)) existing k) \<and>
                 reached k es = (k \<in> set ks)))"
  using assms
proof (cases rule: collect_paths)
  case (unread out)
  then show ?thesis by (auto simp: reached_alt split: kind.splits)
next
  case (config info)
  then show ?thesis by (auto simp: reached_alt split: kind.splits)
next
  case (unfetched info out)
  then show ?thesis by (auto simp: reached_alt split: kind.splits)
next
  case (appleId info existing a b c h0 s1)
  note o1 = appleIdStep_outcome[OF appleId(4)]
  from o1 have s1: "stepOutcome AppleId a s1" by simp
  note f1 = step_facts[OF s1]
  from appleId(1) have abc:
      "a = present (clearCredentials (options this)) existing AppleId"
    by (simp add: hasCredentials_present)
  show ?thesis
    apply (intro disjI2 exI[of _ "credentialMetadataOf info"] exI[of _ existing]
        exI[of _ "[AppleId]"])
    using o1 f1 appleId(5) abc
    by (auto simp: appleId(2,3) reached_alt split: kind.splits dest: fetchedBundle_in)
next
  case (cert info existing a b c h0 s1 i1 s2)
  note o1 = appleIdStep_outcome[OF cert(4)] and o2 = certStep_outcome[OF cert(5)]
  from o1 o2 have s: "stepOutcome AppleId a s1" "stepOutcome Cert b s2" by simp_all
  note f1 = step_facts[OF s(1)] and f2 = step_facts[OF s(2)]
  from cert(1) have abc:
      "a = present (clearCredentials (options this)) existing AppleId"
      "b = present (clearCredentials (options this)) existing Cert"
    by (simp_all add: hasCredentials_present)
  show ?thesis
    apply (intro disjI2 exI[of _ "credentialMetadataOf info"] exI[of _ existing]
        exI[of _ "[AppleId, Cert]"])
    using o1 o2 f1 f2 abc
    by (auto simp: cert(2,3) reached_alt split: kind.splits dest: fetchedBundle_in)
next
  case (appId info existing a b c h0 s1 i1 s2 out)
  note o1 = appleIdStep_outcome[OF appId(4)] and o2 = certStep_outcome[OF appId(5)]
  from o1 o2 have s: "stepOutcome AppleId a s1" "stepOutcome Cert b s2" by simp_all
  note f1 = step_facts[OF s(1)] and f2 = step_facts[OF s(2)]
  from appId(1) have abc:
      "a = present (clearCredentials (options this)) existing AppleId"
      "b = present (clearCredentials (options this)) existing Cert"
    by (simp_all add: hasCredentials_present)
  show ?thesis
    apply (intro disjI2 exI[of _ "credentialMetadataOf info"] exI[of _ existing]
        exI[of _ "[AppleId, Cert]"])
    using o1 o2 f1 f2 abc appId(6)
    by (auto simp: appId(2,3) reached_alt split: kind.splits dest: fetchedBundle_in)
next
  case (push info existing a b c h0 s1 i1 s2 i2 s3)
  note o1 = appleIdStep_outcome[OF push(4)] and o2 = certStep_outcome[OF push(5)]
    and o3 = pushStep_outcome[OF push(6)]
  from o1 o2 o3 have s: "stepOutcome AppleId a s1" "stepOutcome Cert b s2"
      "stepOutcome Push c s3" by simp_all
  note f1 = step_facts[OF s(1)] and f2 = step_facts[OF s(2)] and f3 = step_facts[OF s(3)]
  from push(1) have abc:
      "a = present (clearCredentials (options this)) existing AppleId"
      "b = present (clearCredentials (options this)) existing Cert"
      "c = present (clearCredentials (options this)) existing Push"
    by (simp_all add: hasCredentials_present)
  show ?thesis
    apply (intro disjI2 exI[of _ "credentialMetadataOf info"] exI[of _ existing]
        exI[of _ "[AppleId, Cert, Push]"])
    using o1 o2 o3 f1 f2 f3 abc
    by (auto simp: push(2,3) reached_alt split: kind.splits dest: fetchedBundle_in)
qed

section \<open>The paths of a whole run\<close>

lemma stepOutcome_no_publish:
  "stepOutcome kind has s \<Longrightarrow> \<not> list_ex isPublish s \<and> \<not> list_ex isBuild s"
  by (auto simp: stepOutcome_def list_all_iff list_ex_iff stepEvent_def
      elim!: isPublish.elims isBuild.elims)

lemma stepOutcome_guarded: "stepOutcome kind has s \<Longrightarrow> updatesGuarded prev s"
  by (simp add: stepOutcome_def)

lemma collect_guarded:
  assumes "collectAndValidateCredentials w this h ins = (r, es, ins')"
  shows "updatesGuarded prev es \<and> \<not> list_ex isPublish es \<and> \<not> list_ex isBuild es"
  using assms
proof (cases rule: collect_paths)
  case (unread out)
  then show ?thesis by simp
next
  case (config info)
  then show ?thesis by simp
next
  case (unfetched info out)
  then show ?thesis by simp
next
  case (appleId info existing a b c h0 s1)
  from appleIdStep_outcome[OF appleId(4)] have o: "stepOutcome AppleId a s1" by simp
  from stepOutcome_no_publish[OF o] stepOutcome_guarded[OF o] show ?thesis
    by (simp add: appleId(2,3) updatesGuarded_append)
next
  case (cert info existing a b c h0 s1 i1 s2)
  from appleIdStep_outcome[OF cert(4)] certStep_outcome[OF cert(5)]
  have o: "stepOutcome AppleId a s1" "stepOutcome Cert b s2" by simp_all
  from stepOutcome_no_publish[OF o(1)] stepOutcome_guarded[OF o(1)]
    stepOutcome_no_publish[OF o(2)] stepOutcome_guarded[OF o(2)]
  show ?thesis
    by (simp add: cert(2,3) updatesGuarded_append)
next
  case (appId info existing a b c h0 s1 i1 s2 out)
  from appleIdStep_outcome[OF appId(4)] certStep_outcome[OF appId(5)]
  have o: "stepOutcome AppleId a s1" "stepOutcome Cert b s2" by simp_all
  from stepOutcome_no_publish[OF o(1)] stepOutcome_guarded[OF o(1)]
    stepOutcome_no_publish[OF o(2)] stepOutcome_guarded[OF o(2)]
  show ?thesis
    by (simp add: appId(2,3) updatesGuarded_append)
next
  case (push info existing a b c h0 s1 i1 s2 i2 s3)
  from appleIdStep_outcome[OF push(4)] certStep_outcome[OF push(5)]
    pushStep_outcome[OF push(6)]
  have o: "stepOutcome AppleId a s1" "stepOutcome Cert b s2" "stepOutcome Push c s3"
    by simp_all
  from stepOutcome_no_publish[OF o(1)] stepOutcome_guarded[OF o(1)]
    stepOutcome_no_publish[OF o(2)] stepOutcome_guarded[OF o(2)]
    stepOutcome_no_publish[OF o(3)] stepOutcome_guarded[OF o(3)]
  show ?thesis
    by (simp add: push(2,3) updatesGuarded_append)
qed

lemma run_paths:
  assumes "run w this h ins = (r, es, ins')"
  obtains
    (packager) out where "es = [CheckPackagerStatus out]" "out \<noteq> Returned ()" "r = out"
      "this_checkPackagerStatus w h = out"
  | (status) out where "es = [CheckPackagerStatus (Returned ()), CheckStatus out]"
      "out \<noteq> Returned ()" "r = out"
      "this_checkStatus w (h @ [CheckPackagerStatus (Returned ())]) = out"
  | (credentials) ces where
      "es = CheckPackagerStatus (Returned ()) # CheckStatus (Returned ()) # ces"
      "collectAndValidateCredentials w this
         (h @ [CheckPackagerStatus (Returned ()), CheckStatus (Returned ())]) ins
           = (r, ces, ins')"
      "r \<noteq> Returned ()"
  | (publish) ces i1 out where
      "es = CheckPackagerStatus (Returned ()) # CheckStatus (Returned ()) # ces @ [Publish out]"
      "collectAndValidateCredentials w this
         (h @ [CheckPackagerStatus (Returned ()), CheckStatus (Returned ())]) ins
           = (Returned (), ces, i1)"
      "\<forall>ids. out \<noteq> Returned ids"
      "r = (case out of Thrown e \<Rightarrow> Thrown e | _ \<Rightarrow> Pending)"
      "this_publish w (h @ CheckPackagerStatus (Returned ()) # CheckStatus (Returned ()) # ces)
         = out"
  | (build) ces i1 ids out where
      "es = CheckPackagerStatus (Returned ()) # CheckStatus (Returned ()) # ces
            @ [Publish (Returned ids), Build ids ''ios'' out]"
      "collectAndValidateCredentials w this
         (h @ [CheckPackagerStatus (Returned ()), CheckStatus (Returned ())]) ins
           = (Returned (), ces, i1)"
      "this_publish w (h @ CheckPackagerStatus (Returned ()) # CheckStatus (Returned ()) # ces)
         = Returned ids"
      "r = out"
      "this_build w
         (h @ CheckPackagerStatus (Returned ()) # CheckStatus (Returned ()) # ces
            @ [Publish (Returned ids)]) ids ''ios'' = out"
  using assms unfolding run_def
proof (cases rule: await_cases)
  case one: (ret u1 es1 i1 rest1)
  from one(1) have es1: "es1 = [CheckPackagerStatus (Returned ())]" "i1 = ins"
    by (auto simp: checkPackagerStatus_def call_eq)
  from one(2) show ?thesis
  proof (cases rule: await_cases)
    case two: (ret u2 es2 i2 rest2)
    from two(1) have es2: "es2 = [CheckStatus (Returned ())]" "i2 = i1"
      by (auto simp: checkStatus_def call_eq)
    from two(2) show ?thesis
    proof (cases rule: await_cases)
      case three: (ret u3 ces i3 rest3)
      from three(2) show ?thesis
      proof (cases rule: await_cases)
        case four: (ret ids es4 i4 rest4)
        from four(1) have es4: "es4 = [Publish (Returned ids)]" "i4 = i3"
          and pub: "this_publish w (((h @ es1) @ es2) @ ces) = Returned ids"
          by (auto simp: publish_def call_eq)
        from four(2) have rest4: "rest4 = [Build ids ''ios'' r]"
          and bld: "this_build w ((((h @ es1) @ es2) @ ces) @ es4) ids ''ios'' = r"
          by (auto simp: build_def call_eq)
        show ?thesis
          by (rule build[of ces ids r i3])
             (use one two three four es1 es2 es4 rest4 pub bld in auto)
      next
        case four: (thr e)
        then have "rest3 = [Publish (Thrown e)]"
          "this_publish w (((h @ es1) @ es2) @ ces) = Thrown e"
          by (auto simp: publish_def call_eq)
        with one two three four es1 es2 show ?thesis
          by (intro publish[of ces "Thrown e" i3]) auto
      next
        case four: pen
        then have "rest3 = [Publish Pending]"
          "this_publish w (((h @ es1) @ es2) @ ces) = Pending"
          by (auto simp: publish_def call_eq)
        with one two three four es1 es2 show ?thesis
          by (intro publish[of ces Pending i3]) auto
      qed
    next
      case three: (thr e)
      with one two es1 es2 show ?thesis by (intro credentials[of rest2]) auto
    next
      case three: pen
      with one two es1 es2 show ?thesis by (intro credentials[of rest2]) auto
    qed
  next
    case two: (thr e)
    then have "rest1 = [CheckStatus (Thrown e)]"
      "this_checkStatus w (h @ es1) = Thrown e"
      by (auto simp: checkStatus_def call_eq)
    with one two es1 show ?thesis by (intro status[of "Thrown e"]) auto
  next
    case two: pen
    then have "rest1 = [CheckStatus Pending]"
      "this_checkStatus w (h @ es1) = Pending"
      by (auto simp: checkStatus_def call_eq)
    with one two es1 show ?thesis by (intro status[of Pending]) auto
  qed
next
  case (thr e)
  then show ?thesis
    by (intro packager[of "Thrown e"]) (auto simp: checkPackagerStatus_def call_eq)
next
  case pen
  then show ?thesis
    by (intro packager[of Pending]) (auto simp: checkPackagerStatus_def call_eq)
qed

lemma specific_stepEvent: "specific k e \<Longrightarrow> stepEvent k' e \<Longrightarrow> k = k'"
  by (cases e; cases k; cases k') (auto simp: stepEvent_def only_def)

lemma stepOutcome_specific:
  "stepOutcome kind has s \<Longrightarrow> k \<noteq> kind \<Longrightarrow> \<not> list_ex (specific k) s"
  by (auto simp: stepOutcome_def list_all_iff list_ex_iff dest: specific_stepEvent)

lemma no_ensure_filter: "\<not> list_ex isEnsureAppId s \<Longrightarrow> filter isEnsureAppId s = []"
  by (auto simp: list_ex_iff filter_empty_conv)

lemma no_ensure_in: "\<not> list_ex isEnsureAppId s \<Longrightarrow> EnsureAppId m out \<notin> set s"
  by (force simp: list_ex_iff)

text \<open>
  Every update directly follows the validation call of the same credentials, and that
  call returned. Whether the value it returned counts as a success is not part of this.
\<close>

lemma updates_follow_returned_validation:
  assumes "run w this h ins = (r, es, ins')"
  shows "updatesGuarded None es"
  using assms
proof (cases rule: run_paths)
  case (packager out)
  then show ?thesis by simp
next
  case (status out)
  then show ?thesis by simp
next
  case (credentials ces)
  from collect_guarded[OF credentials(2)] show ?thesis by (simp add: credentials(1))
next
  case (publish ces i1 out)
  from collect_guarded[OF publish(2)] show ?thesis
    by (simp add: publish(1) updatesGuarded_append)
next
  case (build ces i1 ids out)
  from collect_guarded[OF build(2)] show ?thesis
    by (simp add: build(1) updatesGuarded_append)
qed

lemma no_publish_in: "\<not> list_ex isPublish s \<Longrightarrow> Publish out \<notin> set s"
  by (force simp: list_ex_iff)

lemma no_build_in: "\<not> list_ex isBuild s \<Longrightarrow> Build ids p out \<notin> set s"
  by (force simp: list_ex_iff)

lemma no_publish_filter: "\<not> list_ex isPublish s \<Longrightarrow> filter isPublish s = []"
  by (auto simp: list_ex_iff filter_empty_conv)

lemma no_build_filter: "\<not> list_ex isBuild s \<Longrightarrow> filter isBuild s = []"
  by (auto simp: list_ex_iff filter_empty_conv)

section \<open>The path question\<close>

text \<open>
  The automaton accepts what the prompt of the certificate flow emits, and then what the
  flow does with the answers; what it has accepted tells where each path came from.
\<close>

lemma pathRun_append:
  "pathRun w s (xs @ ys) =
     (case pathRun w s xs of None \<Rightarrow> None | Some s' \<Rightarrow> pathRun w s' ys)"
  by (induction xs arbitrary: s) (auto split: option.splits)

lemma pathRun_plain:
  assumes "list_all (\<lambda>e. \<exists>x. e = Asked n x) es" and "n \<noteq> ''pathToP12''"
    and "owed s = Settled"
  shows "pathRun w s es = Some s"
  using assms by (induction es) auto

lemma ask_plain:
  assumes "ask q h ins = (r, es, ins')" and "qvalidate q = validateAny"
  shows "list_all (\<lambda>e. \<exists>x. e = Asked (qname q) x) es"
proof (rule ask_all[OF _ _ assms(1)])
  show "list_all (\<lambda>e. \<exists>x. e = Asked (qname q) x) vs" if "qvalidate q s h' = (r, vs)"
    for s h' r vs
    using that assms(2) by (simp add: validateAny_def)
  show "\<exists>y. Asked (qname q) x = Asked (qname q) y" for x by simp
qed

lemma ask_path:
  assumes q: "qtype q = InputQ" "qname q = ''pathToP12''" "qvalidate q = validateP12Path w"
    "qfilter q = filterP12Path w"
  shows "ask q h ins = (r, es, ins') \<Longrightarrow> owed s \<noteq> MustLogThenAsk \<Longrightarrow>
         \<exists>s'. pathRun w s es = Some s' \<and> owed s' = Settled \<and> loaded s' = loaded s \<and>
              (\<forall>v. r = Returned v \<longrightarrow> (\<exists>p. v = VStr p \<and> p \<in> set (passed s')))"
proof (induction ins arbitrary: h s r es ins')
  case Nil
  then show ?case using q by auto
next
  case (Cons x xs)
  show ?case
  proof (cases x)
    case (Choice i)
    let ?s1 = "s\<lparr>typed := None, owed := Settled\<rparr>"
    obtain r1 es1 i1 where rec: "ask q (h @ [Asked (qname q) (Some x)]) xs = (r1, es1, i1)"
      by (cases "ask q (h @ [Asked (qname q) (Some x)]) xs")
    have "\<exists>s'. pathRun w ?s1 es1 = Some s' \<and> owed s' = Settled \<and> loaded s' = loaded ?s1 \<and>
              (\<forall>v. r1 = Returned v \<longrightarrow> (\<exists>p. v = VStr p \<and> p \<in> set (passed s')))"
      by (rule Cons.IH[OF rec]) simp
    with Cons.prems Choice q rec show ?thesis by auto
  next
    case (Line l)
    let ?p = "filterP12Path w l"
    let ?h1 = "h @ [Asked (qname q) (Some x)]"
    show ?thesis
    proof (cases "fs_stat w ?h1 ?p")
      case (Returned st)
      show ?thesis
      proof (cases "isFile st")
        case True
        with Cons.prems Line q Returned show ?thesis
          by (auto simp: validateP12Path_def)
      next
        case False
        let ?s1 = "s\<lparr>typed := None, owed := MustAsk\<rparr>"
        obtain r1 es1 i1 where rec:
          "ask q (h @ Asked (qname q) (Some x) # [FsStat ?p (Returned st)]) xs = (r1, es1, i1)"
          by (cases "ask q (h @ Asked (qname q) (Some x) # [FsStat ?p (Returned st)]) xs")
        have "\<exists>s'. pathRun w ?s1 es1 = Some s' \<and> owed s' = Settled \<and>
                 loaded s' = loaded ?s1 \<and>
                 (\<forall>v. r1 = Returned v \<longrightarrow> (\<exists>p. v = VStr p \<and> p \<in> set (passed s')))"
          by (rule Cons.IH[OF rec]) simp
        with Cons.prems Line q Returned False rec show ?thesis
          by (auto simp: validateP12Path_def)
      qed
    next
      case (Thrown e)
      let ?s1 = "s\<lparr>typed := None, owed := MustAsk\<rparr>"
      obtain r1 es1 i1 where rec:
        "ask q (h @ Asked (qname q) (Some x) #
           [FsStat ?p (Thrown e), ConsoleLog (CHR 0x0A # ''File does not exist.'')]) xs
           = (r1, es1, i1)"
        by (cases "ask q (h @ Asked (qname q) (Some x) #
           [FsStat ?p (Thrown e), ConsoleLog (CHR 0x0A # ''File does not exist.'')]) xs")
      have "\<exists>s'. pathRun w ?s1 es1 = Some s' \<and> owed s' = Settled \<and>
               loaded s' = loaded ?s1 \<and>
               (\<forall>v. r1 = Returned v \<longrightarrow> (\<exists>p. v = VStr p \<and> p \<in> set (passed s')))"
        by (rule Cons.IH[OF rec]) simp
      with Cons.prems Line q Thrown rec show ?thesis
        by (auto simp: validateP12Path_def)
    next
      case Pending
      with Cons.prems Line q show ?thesis
        by (auto simp: validateP12Path_def)
    qed
  qed
qed

lemma pathRun_other_questions:
  assumes "list_all (\<lambda>e. \<exists>n x. e = Asked n x \<and> n \<noteq> ''pathToP12'') es"
    and "owed s = Settled"
  shows "pathRun w s es = Some s"
  using assms by (induction es) auto

lemma prompt_other_questions:
  assumes "prompt qs a h ins = (r, es, ins')"
    and "\<And>q. q \<in> set qs \<Longrightarrow> qvalidate q = validateAny \<and> qname q \<noteq> ''pathToP12''"
  shows "list_all (\<lambda>e. \<exists>n x. e = Asked n x \<and> n \<noteq> ''pathToP12'') es"
proof (rule prompt_all[OF _ _ assms(1)])
  show "list_all (\<lambda>e. \<exists>n x. e = Asked n x \<and> n \<noteq> ''pathToP12'') vs"
    if "q \<in> set qs" "qvalidate q s h' = (r, vs)" for q s h' r vs
    using that assms(2)[of q] by (simp add: validateAny_def)
  show "\<exists>n y. Asked (qname q) x = Asked n y \<and> n \<noteq> ''pathToP12''"
    if "q \<in> set qs" for q x
    using that assms(2)[of q] by simp
qed

lemma answer_cong: "a' n = a n \<Longrightarrow> answer a' n = answer a n"
  by (simp add: answer_def)

lemma prompt_certPassword:
  assumes "prompt [certPasswordQ] a h ins = (r, es, ins')" and "owed s = Settled"
  shows "pathRun w s es = Some s \<and>
         (\<forall>a'. r = Returned a' \<longrightarrow>
            answer a' ''pathToP12'' = answer a ''pathToP12'' \<and>
            answer a' ''manageCertificates'' = answer a ''manageCertificates'')"
proof -
  have "list_all (\<lambda>e. \<exists>n x. e = Asked n x \<and> n \<noteq> ''pathToP12'') es"
    by (rule prompt_other_questions[OF assms(1)]) (simp add: certPasswordQ_def)
  from pathRun_other_questions[OF this assms(2)] have run: "pathRun w s es = Some s" .
  have "a' ''pathToP12'' = a ''pathToP12'' \<and> a' ''manageCertificates'' = a ''manageCertificates''"
    if "r = Returned a'" for a'
    using prompt_keeps[of "[certPasswordQ]" a h ins a' es ins'] assms(1) that
    by (simp add: certPasswordQ_def)
  with run show ?thesis by (auto intro: answer_cong)
qed

lemma prompt_certPath:
  assumes "prompt [certPathQ w, certPasswordQ] a h ins = (r, es, ins')"
    and "owed s = Settled"
  shows "\<exists>s'. pathRun w s es = Some s' \<and> owed s' = Settled \<and> loaded s' = loaded s \<and>
           (\<forall>a'. r = Returned a' \<longrightarrow> \<not> truthy (answer a' ''manageCertificates'') \<longrightarrow>
              (\<exists>p. answer a' ''pathToP12'' = VStr p \<and> p \<in> set (passed s')))"
  using assms(1)
proof (cases rule: prompt_Cons_cases)
  case skipped
  from prompt_certPassword[OF skipped(2) assms(2), of w] skipped(1) assms(2)
  show ?thesis by (auto simp: certPathQ_def)
next
  case (answered v es1 i1 es2)
  from ask_path[OF _ _ _ _ answered(2), of w s] assms(2)
  obtain s1 p where s1: "pathRun w s es1 = Some s1" "owed s1 = Settled"
      "loaded s1 = loaded s" "v = VStr p" "p \<in> set (passed s1)"
    by (auto simp: certPathQ_def)
  from prompt_certPassword[OF answered(3) s1(2), of w]
  have rest: "pathRun w s1 es2 = Some s1"
    "\<And>a'. r = Returned a' \<Longrightarrow> answer a' ''pathToP12''
        = answer (a(qname (certPathQ w) \<mapsto> v)) ''pathToP12''"
    by auto
  have "answer (a(qname (certPathQ w) \<mapsto> v)) ''pathToP12'' = VStr p"
    by (simp add: answer_def certPathQ_def s1(4))
  with rest s1 show ?thesis
    unfolding answered(4) by (auto simp: pathRun_append)
next
  case (thrown e)
  from ask_path[OF _ _ _ _ thrown(2), of w s] assms(2) thrown(3) show ?thesis
    by (auto simp: certPathQ_def)
next
  case waiting
  from ask_path[OF _ _ _ _ waiting(2), of w s] assms(2) waiting(3) show ?thesis
    by (auto simp: certPathQ_def)
qed

lemma prompt_certQuestions_path:
  assumes "prompt (certQuestions w) a h ins = (r, es, ins')" and "owed s = Settled"
  shows "\<exists>s'. pathRun w s es = Some s' \<and> owed s' = Settled \<and> loaded s' = loaded s \<and>
           (\<forall>a'. r = Returned a' \<longrightarrow> \<not> truthy (answer a' ''manageCertificates'') \<longrightarrow>
              (\<exists>p. answer a' ''pathToP12'' = VStr p \<and> p \<in> set (passed s')))"
  using assms(1) unfolding certQuestions_def
proof (cases rule: prompt_Cons_cases)
  case skipped
  then show ?thesis by (simp add: manageCertificatesQ_def whenAlways_def)
next
  case (answered v es1 i1 es2)
  have "list_all (\<lambda>e. \<exists>x. e = Asked (qname manageCertificatesQ) x) es1"
    by (rule ask_plain[OF answered(2)]) (simp add: manageCertificatesQ_def)
  then have "pathRun w s es1 = Some s"
    using pathRun_plain[of "qname manageCertificatesQ" es1 s w] assms(2)
    by (simp add: manageCertificatesQ_def)
  with prompt_certPath[OF answered(3) assms(2)] show ?thesis
    unfolding answered(4) by (auto simp: pathRun_append)
next
  case (thrown e)
  have "list_all (\<lambda>e. \<exists>x. e = Asked (qname manageCertificatesQ) x) es"
    by (rule ask_plain[OF thrown(2)]) (simp add: manageCertificatesQ_def)
  then have "pathRun w s es = Some s"
    using pathRun_plain[of "qname manageCertificatesQ" es s w] assms(2)
    by (simp add: manageCertificatesQ_def)
  with assms(2) thrown(3) show ?thesis by simp
next
  case waiting
  have "list_all (\<lambda>e. \<exists>x. e = Asked (qname manageCertificatesQ) x) es"
    by (rule ask_plain[OF waiting(2)]) (simp add: manageCertificatesQ_def)
  then have "pathRun w s es = Some s"
    using pathRun_plain[of "qname manageCertificatesQ" es s w] assms(2)
    by (simp add: manageCertificatesQ_def)
  with assms(2) waiting(3) show ?thesis by simp
qed

lemma cert_tail_managed:
  assumes "tryCatch (await (fetchAppleCertificates w m) (\<lambda>_. return ()))
       (\<lambda>e. if isXDLError e then throw (CommandError (code e) failedFetchingUploading)
             else throw e) h ins = (r, tail, ins')"
  shows "\<exists>out. tail = [FetchAppleCertificates m out]"
  using assms
  by (cases "Credentials_fetchAppleCertificates w h m")
     (auto simp: unfold_io split: if_splits)

lemma certTail_path:
  assumes "certTail w m (VStr p) r tail" and "p \<in> set (passed s)" and "owed s = Settled"
  shows "\<exists>s'. pathRun w s tail = Some s' \<and> owed s' = Settled"
  using assms by cases (auto simp: list_ex_iff)

lemma askForCerts_path:
  assumes "askForCerts w m h ins = (r, es, ins')"
  shows "pathDiscipline w es"
proof -
  from assms obtain es2 where es: "es = ConsoleLog '''' # es2"
    and run: "await (prompt (certQuestions w) Map.empty) (\<lambda>answers.
     tryCatch
       (if truthy (answer answers ''manageCertificates'')
        then await (fetchAppleCertificates w m) (\<lambda>_. return ())
        else
          await (readFile w (answer answers ''pathToP12'')) (\<lambda>p12Data.
            let credentials = noCredentials
                  \<lparr>certP12 := Some (Buffer_toBase64 w p12Data),
                   certPassword := strOf (answer answers ''certPassword'')\<rparr>
            in
            await (tryCatch
                     (validateCredentialsForPlatform w ''ios'' ''cert'' (Some credentials) m)
                     (\<lambda>e. if isXDLError e then throw (CommandError (code e) certNotInPortal)
                           else throw e)) (\<lambda>_.
            await (updateCredentialsForPlatform w ''ios'' credentials m) (\<lambda>_.
            return ()))))
       (\<lambda>e. if isXDLError e then throw (CommandError (code e) failedFetchingUploading)
             else throw e)) (h @ [ConsoleLog '''']) ins = (r, es2, ins')"
    by (auto simp: askForCerts_def await_consoleLog)
  have start: "owed pathStart = Settled" by (simp add: pathStart_def)
  have "\<exists>s'. pathRun w pathStart es2 = Some s' \<and> owed s' = Settled"
    using run
  proof (cases rule: await_cases)
    case (ret a pes i1 tail)
    from prompt_certQuestions_path[OF ret(1) start]
    obtain s1 where s1: "pathRun w pathStart pes = Some s1" "owed s1 = Settled"
      "\<not> truthy (answer a ''manageCertificates'') \<Longrightarrow>
         \<exists>p. answer a ''pathToP12'' = VStr p \<and> p \<in> set (passed s1)"
      by auto
    have "\<exists>s'. pathRun w s1 tail = Some s' \<and> owed s' = Settled"
    proof (cases "truthy (answer a ''manageCertificates'')")
      case True
      with ret(2) cert_tail_managed[of w m "h @ ConsoleLog '''' # pes" i1 r tail ins']
      obtain out where "tail = [FetchAppleCertificates m out]" by auto
      with s1(2) show ?thesis by simp
    next
      case False
      from s1(3)[OF False] obtain p where p: "answer a ''pathToP12'' = VStr p"
        "p \<in> set (passed s1)" by auto
      from ret(2) have "certTail w m (answer a ''pathToP12'') r tail" by (rule cert_tail)
      with p s1(2) show ?thesis by (auto intro: certTail_path)
    qed
    with s1(1) show ?thesis unfolding ret(3) by (simp add: pathRun_append)
  next
    case (thr e)
    from prompt_certQuestions_path[OF thr(1) start] thr(2) show ?thesis by auto
  next
    case pen
    from prompt_certQuestions_path[OF pen(1) start] pen(2) show ?thesis by auto
  qed
  then show ?thesis
    unfolding es by (auto simp: pathDiscipline_def pathStart_def)
qed

lemma pathStep_typed:
  assumes "pathStep w s e = Some s'" and "typed s' = Some l"
  shows "typed s = Some l \<or> e = Asked ''pathToP12'' (Some (Line l))"
  using assms
  by (cases e) (auto split: if_splits option.splits outcome.splits debt.splits submission.splits)

lemma pathStep_passed:
  assumes "pathStep w s e = Some s'" and "p \<in> set (passed s')"
  shows "p \<in> set (passed s) \<or>
         (\<exists>l stats. typed s = Some l \<and> p = filterP12Path w l \<and> isFile stats \<and>
                    e = FsStat p (Returned stats))"
  using assms
  by (cases e) (auto split: if_splits option.splits outcome.splits debt.splits)

lemma pathStep_loaded:
  assumes "pathStep w s e = Some s'" and "x \<in> set (loaded s')"
  shows "x \<in> set (loaded s) \<or>
         (\<exists>p d. p \<in> set (passed s) \<and> e = FsReadFile (VStr p) (Returned d) \<and>
                 x = Buffer_toBase64 w d)"
  using assms
  by (cases e)
     (auto simp: list_ex_iff split: if_splits option.splits outcome.splits debt.splits)

lemma pathRun_snoc:
  "pathRun w s (es @ [e]) = Some s' \<longleftrightarrow>
     (\<exists>s1. pathRun w s es = Some s1 \<and> pathStep w s1 e = Some s')"
  by (auto simp: pathRun_append split: option.splits)

lemma pathRun_history:
  assumes "pathRun w pathStart es = Some s"
  shows "(\<forall>l. typed s = Some l \<longrightarrow> Asked ''pathToP12'' (Some (Line l)) \<in> set es) \<and>
         (\<forall>p \<in> set (passed s). \<exists>l stats. p = filterP12Path w l \<and> isFile stats \<and>
             Asked ''pathToP12'' (Some (Line l)) \<in> set es \<and>
             FsStat p (Returned stats) \<in> set es) \<and>
         (\<forall>x \<in> set (loaded s). \<exists>l stats d. isFile stats \<and>
             Asked ''pathToP12'' (Some (Line l)) \<in> set es \<and>
             FsStat (filterP12Path w l) (Returned stats) \<in> set es \<and>
             FsReadFile (VStr (filterP12Path w l)) (Returned d) \<in> set es \<and>
             x = Buffer_toBase64 w d)"
  using assms
proof (induction es arbitrary: s rule: rev_induct)
  case Nil
  then show ?case by (auto simp: pathStart_def)
next
  case (snoc e es)
  from snoc.prems obtain s1 where s1: "pathRun w pathStart es = Some s1"
    and step: "pathStep w s1 e = Some s"
    by (auto simp: pathRun_snoc)
  note ih = snoc.IH[OF s1]
  have 1: "Asked ''pathToP12'' (Some (Line l)) \<in> set (es @ [e])" if "typed s = Some l" for l
    using pathStep_typed[OF step that] ih by auto
  have 2: "\<exists>l stats. p = filterP12Path w l \<and> isFile stats \<and>
             Asked ''pathToP12'' (Some (Line l)) \<in> set (es @ [e]) \<and>
             FsStat p (Returned stats) \<in> set (es @ [e])" if "p \<in> set (passed s)" for p
    using pathStep_passed[OF step that]
  proof
    assume "p \<in> set (passed s1)"
    with ih obtain l stats where "p = filterP12Path w l" "isFile stats"
      "Asked ''pathToP12'' (Some (Line l)) \<in> set es" "FsStat p (Returned stats) \<in> set es"
      by blast
    then show ?thesis by auto
  next
    assume "\<exists>l stats. typed s1 = Some l \<and> p = filterP12Path w l \<and> isFile stats \<and>
                    e = FsStat p (Returned stats)"
    then obtain l stats where a: "typed s1 = Some l" "p = filterP12Path w l" "isFile stats"
      "e = FsStat p (Returned stats)" by blast
    with ih have "Asked ''pathToP12'' (Some (Line l)) \<in> set es" by blast
    with a show ?thesis by auto
  qed
  have 3: "\<exists>l stats d. isFile stats \<and>
             Asked ''pathToP12'' (Some (Line l)) \<in> set (es @ [e]) \<and>
             FsStat (filterP12Path w l) (Returned stats) \<in> set (es @ [e]) \<and>
             FsReadFile (VStr (filterP12Path w l)) (Returned d) \<in> set (es @ [e]) \<and>
             x = Buffer_toBase64 w d" if "x \<in> set (loaded s)" for x
    using pathStep_loaded[OF step that]
  proof
    assume "x \<in> set (loaded s1)"
    with ih obtain l stats d where "isFile stats"
      "Asked ''pathToP12'' (Some (Line l)) \<in> set es"
      "FsStat (filterP12Path w l) (Returned stats) \<in> set es"
      "FsReadFile (VStr (filterP12Path w l)) (Returned d) \<in> set es"
      "x = Buffer_toBase64 w d"
      by blast
    then show ?thesis by auto
  next
    assume "\<exists>p d. p \<in> set (passed s1) \<and> e = FsReadFile (VStr p) (Returned d) \<and>
                 x = Buffer_toBase64 w d"
    then obtain p d where a: "p \<in> set (passed s1)" "e = FsReadFile (VStr p) (Returned d)"
      "x = Buffer_toBase64 w d" by blast
    with ih obtain l stats where "p = filterP12Path w l" "isFile stats"
      "Asked ''pathToP12'' (Some (Line l)) \<in> set es" "FsStat p (Returned stats) \<in> set es"
      by blast
    with a show ?thesis by auto
  qed
  from 1 2 3 show ?case by blast
qed

lemma pathRun_split:
  "pathRun w s (pre @ e # post) = Some sf \<longleftrightarrow>
     (\<exists>s1 s2. pathRun w s pre = Some s1 \<and> pathStep w s1 e = Some s2 \<and>
        pathRun w s2 post = Some sf)"
  by (auto simp: pathRun_append split: option.splits)

lemma pathDiscipline_split:
  assumes "pathDiscipline w (pre @ e # post)"
  obtains s1 s2 sf where "pathRun w pathStart pre = Some s1" and "pathStep w s1 e = Some s2"
    and "pathRun w s2 post = Some sf" and "owed sf = Settled"
  using assms by (auto simp: pathDiscipline_def pathRun_split split: option.splits)

lemma typed_history:
  assumes "pathRun w pathStart es = Some s" and "typed s = Some l"
  shows "Asked ''pathToP12'' (Some (Line l)) \<in> set es"
  using pathRun_history[OF assms(1)] assms(2) by simp

lemma passed_history:
  assumes "pathRun w pathStart es = Some s" and "p \<in> set (passed s)"
  shows "\<exists>l stats. p = filterP12Path w l \<and> isFile stats \<and>
           Asked ''pathToP12'' (Some (Line l)) \<in> set es \<and>
           FsStat p (Returned stats) \<in> set es"
proof -
  from pathRun_history[OF assms(1)]
  have "\<forall>p \<in> set (passed s). \<exists>l stats. p = filterP12Path w l \<and> isFile stats \<and>
             Asked ''pathToP12'' (Some (Line l)) \<in> set es \<and>
             FsStat p (Returned stats) \<in> set es"
    by (rule conjunct1[OF conjunct2])
  from bspec[OF this assms(2)] show ?thesis .
qed

lemma loaded_history:
  assumes "pathRun w pathStart es = Some s" and "x \<in> set (loaded s)"
  shows "\<exists>l stats d. isFile stats \<and>
             Asked ''pathToP12'' (Some (Line l)) \<in> set es \<and>
             FsStat (filterP12Path w l) (Returned stats) \<in> set es \<and>
             FsReadFile (VStr (filterP12Path w l)) (Returned d) \<in> set es \<and>
             x = Buffer_toBase64 w d"
proof -
  from pathRun_history[OF assms(1)]
  have "\<forall>x \<in> set (loaded s). \<exists>l stats d. isFile stats \<and>
             Asked ''pathToP12'' (Some (Line l)) \<in> set es \<and>
             FsStat (filterP12Path w l) (Returned stats) \<in> set es \<and>
             FsReadFile (VStr (filterP12Path w l)) (Returned d) \<in> set es \<and>
             x = Buffer_toBase64 w d"
    by (rule conjunct2[OF conjunct2])
  from bspec[OF this assms(2)] show ?thesis .
qed

lemma discipline_check:
  assumes "pathDiscipline w (pre @ FsStat p out # post)"
  shows "\<exists>l. p = filterP12Path w l \<and> Asked ''pathToP12'' (Some (Line l)) \<in> set pre"
  using assms
proof (rule pathDiscipline_split)
  fix s1 s2
  assume run: "pathRun w pathStart pre = Some s1" and "pathStep w s1 (FsStat p out) = Some s2"
  then obtain l where l: "typed s1 = Some l" "p = filterP12Path w l"
    by (auto split: option.splits if_splits)
  from typed_history[OF run l(1)] l(2) show ?thesis by (intro exI[of _ l]) simp
qed

lemma discipline_read:
  assumes "pathDiscipline w (pre @ FsReadFile v out # post)"
  shows "\<exists>l stats. v = VStr (filterP12Path w l) \<and> isFile stats \<and>
           Asked ''pathToP12'' (Some (Line l)) \<in> set pre \<and>
           FsStat (filterP12Path w l) (Returned stats) \<in> set pre"
  using assms
proof (rule pathDiscipline_split)
  fix s1 s2
  assume run: "pathRun w pathStart pre = Some s1"
    and "pathStep w s1 (FsReadFile v out) = Some s2"
  then obtain p where p: "v = VStr p" "p \<in> set (passed s1)"
    by (auto simp: list_ex_iff split: if_splits)
  from passed_history[OF run p(2)] obtain l stats where
    "p = filterP12Path w l" "isFile stats" "Asked ''pathToP12'' (Some (Line l)) \<in> set pre"
    "FsStat p (Returned stats) \<in> set pre"
    by (elim exE conjE)
  with p(1) show ?thesis by (intro exI[of _ l] exI[of _ stats]) simp
qed

lemma discipline_validate:
  assumes "pathDiscipline w (pre @ ValidateCredentialsForPlatform pl k (Some c) m out # post)"
  shows "\<exists>l stats d. isFile stats \<and>
           Asked ''pathToP12'' (Some (Line l)) \<in> set pre \<and>
           FsStat (filterP12Path w l) (Returned stats) \<in> set pre \<and>
           FsReadFile (VStr (filterP12Path w l)) (Returned d) \<in> set pre \<and>
           certP12 c = Some (Buffer_toBase64 w d)"
  using assms
proof (rule pathDiscipline_split)
  fix s1 s2
  assume run: "pathRun w pathStart pre = Some s1"
    and "pathStep w s1 (ValidateCredentialsForPlatform pl k (Some c) m out) = Some s2"
  then obtain x where x: "certP12 c = Some x" "x \<in> set (loaded s1)"
    by (auto simp: list_ex_iff split: if_splits)
  from loaded_history[OF run x(2)] x(1) show ?thesis by simp
qed

lemma discipline_update:
  assumes "pathDiscipline w (pre @ UpdateCredentialsForPlatform pl c m out # post)"
  shows "\<exists>l stats d. isFile stats \<and>
           Asked ''pathToP12'' (Some (Line l)) \<in> set pre \<and>
           FsStat (filterP12Path w l) (Returned stats) \<in> set pre \<and>
           FsReadFile (VStr (filterP12Path w l)) (Returned d) \<in> set pre \<and>
           certP12 c = Some (Buffer_toBase64 w d)"
  using assms
proof (rule pathDiscipline_split)
  fix s1 s2
  assume run: "pathRun w pathStart pre = Some s1"
    and "pathStep w s1 (UpdateCredentialsForPlatform pl c m out) = Some s2"
  then obtain x where x: "certP12 c = Some x" "x \<in> set (loaded s1)"
    by (auto simp: list_ex_iff split: if_splits)
  from loaded_history[OF run x(2)] x(1) show ?thesis by simp
qed

lemma owed_MustAsk:
  assumes "pathRun w s post = Some sf" and "owed s = MustAsk" and "owed sf = Settled"
  shows "\<exists>x rest. post = Asked ''pathToP12'' x # rest"
proof (cases post)
  case Nil
  with assms show ?thesis by simp
next
  case (Cons e rest)
  with assms show ?thesis
    by (cases e) (auto split: option.splits if_splits)
qed

lemma owed_MustLogThenAsk:
  assumes "pathRun w s post = Some sf" and "owed s = MustLogThenAsk" and "owed sf = Settled"
  shows "\<exists>l x rest. post = ConsoleLog l # Asked ''pathToP12'' x # rest"
proof (cases post)
  case Nil
  with assms show ?thesis by simp
next
  case (Cons e rest)
  with assms obtain l s1 where e: "e = ConsoleLog l" and s1: "pathRun w s1 rest = Some sf"
    "owed s1 = MustAsk"
    by (cases e) (auto split: option.splits if_splits)
  from owed_MustAsk[OF s1 assms(3)] e Cons show ?thesis by auto
qed

lemma discipline_not_a_file:
  assumes "pathDiscipline w (pre @ FsStat p (Returned stats) # post)" and "\<not> isFile stats"
  shows "\<exists>x rest. post = Asked ''pathToP12'' x # rest"
  using assms(1)
proof (rule pathDiscipline_split)
  fix s1 s2 sf
  assume "pathStep w s1 (FsStat p (Returned stats)) = Some s2"
    and post: "pathRun w s2 post = Some sf" "owed sf = Settled"
  with assms(2) have "owed s2 = MustAsk"
    by (auto split: option.splits if_splits)
  from owed_MustAsk[OF post(1) this post(2)] show ?thesis .
qed

lemma discipline_check_threw:
  assumes "pathDiscipline w (pre @ FsStat p (Thrown e) # post)"
  shows "\<exists>l x rest. post = ConsoleLog l # Asked ''pathToP12'' x # rest"
  using assms(1)
proof (rule pathDiscipline_split)
  fix s1 s2 sf
  assume "pathStep w s1 (FsStat p (Thrown e)) = Some s2"
    and post: "pathRun w s2 post = Some sf" "owed sf = Settled"
  then have "owed s2 = MustLogThenAsk"
    by (auto split: option.splits if_splits)
  from owed_MustLogThenAsk[OF post(1) this post(2)] show ?thesis .
qed

section \<open>Sample runs\<close>

lemmas flow_defs =
  collectAndValidateCredentials_def appleIdStep_def certStep_def appIdStep_def pushStep_def
  askForAppleId_def askForCerts_def askForPushCerts_def hasCredentials_def
  appleIdQuestions_def certQuestions_def pushCertQuestions_def question_defs

lemma sample_simps [simp]:
  "projectDir sampleBuilder = ''.''" "clearCredentials (options sampleBuilder) = False"
  "credentialMetadataOf sampleInfo = sampleMetadata"
  by (simp_all add: sampleBuilder_def credentialMetadataOf_def sampleInfo_def sampleMetadata_def)

lemma storedInvalid_run:
  "collectAndValidateCredentials worldStoredInvalid sampleBuilder [] []
     = (Thrown storedCredentialsInvalid,
        [GetPublishInfoAsync ''.'' (Returned sampleInfo),
         CredentialsExistForPlatformAsync sampleMetadata (Returned (Some storedBundle)),
         ValidateCredentialsForPlatform ''ios'' ''appleId'' None sampleMetadata
           (Thrown serviceRejects)], [])"
  by (simp add: flow_defs worldStoredInvalid_def calm_def eval_defs sampleInfo_def
       sampleMetadata_def storedBundle_def sampleBuilder_def)

lemma appleIdRejected_run:
  "collectAndValidateCredentials worldAppleIdRejected sampleBuilder []
       [Line ''me@dev.io'', Line ''secret'', Line ''TEAM1'']
     = (Thrown (CommandError CREDENTIAL_ERROR ''Unable to validate credentials.''),
        [GetPublishInfoAsync ''.'' (Returned sampleInfo),
         CredentialsExistForPlatformAsync sampleMetadata (Returned None),
         ConsoleLog '''', ConsoleLog appleIdNotice,
         Asked ''appleId'' (Some (Line ''me@dev.io'')),
         Asked ''password'' (Some (Line ''secret'')),
         Asked ''teamId'' (Some (Line ''TEAM1'')),
         ValidateCredentialsForPlatform ''ios'' ''appleId''
           (Some (noCredentials\<lparr>appleId := Some ''me@dev.io'', password := Some ''secret'',
                    teamId := Some ''TEAM1''\<rparr>)) sampleMetadata
           (Thrown serviceRejects)], [])"
  by (simp add: flow_defs worldAppleIdRejected_def calm_def eval_defs sampleInfo_def
       sampleMetadata_def sampleBuilder_def serviceRejects_def)

lemma withoutPush_run:
  "collectAndValidateCredentials worldWithoutPush sampleBuilder [] [Choice 0]
     = (Returned (),
        [GetPublishInfoAsync ''.'' (Returned sampleInfo),
         CredentialsExistForPlatformAsync sampleMetadata (Returned (Some bundleWithoutPush)),
         ValidateCredentialsForPlatform ''ios'' ''appleId'' None sampleMetadata
           (Returned VUndefined),
         ValidateCredentialsForPlatform ''ios'' ''cert'' None sampleMetadata
           (Returned VUndefined),
         EnsureAppId sampleMetadata (Returned ()),
         ConsoleLog '''', Asked ''managePushCertificates'' (Some (Choice 0)),
         FetchPushCertificates sampleMetadata (Returned (VBool True))], [])"
  by (simp add: flow_defs worldWithoutPush_def calm_def eval_defs sampleInfo_def
       sampleMetadata_def sampleBuilder_def bundleWithoutPush_def storedBundle_def)

lemma calm_run:
  "run calm sampleBuilder [] operatorUploads
     = (Returned (),
        [CheckPackagerStatus (Returned ()), CheckStatus (Returned ()),
         GetPublishInfoAsync ''.'' (Returned sampleInfo),
         CredentialsExistForPlatformAsync sampleMetadata (Returned None),
         ConsoleLog '''', ConsoleLog appleIdNotice,
         Asked ''appleId'' (Some (Line ''me@dev.io'')),
         Asked ''password'' (Some (Line ''secret'')),
         Asked ''teamId'' (Some (Line ''TEAM1'')),
         ValidateCredentialsForPlatform ''ios'' ''appleId'' (Some typedAppleId) sampleMetadata
           (Returned VUndefined),
         UpdateCredentialsForPlatform ''ios'' typedAppleId sampleMetadata (Returned ()),
         ConsoleLog '''',
         Asked ''manageCertificates'' (Some (Choice 1)),
         Asked ''pathToP12'' (Some (Line ''missing.p12'')),
         FsStat ''/certs/missing.p12'' (Thrown (Foreign ''ENOENT'')),
         ConsoleLog (CHR 0x0A # ''File does not exist.''),
         Asked ''pathToP12'' (Some (Line ''dist.p12'')),
         FsStat ''/certs/dist.p12'' (Returned \<lparr>isFile = True\<rparr>),
         Asked ''certPassword'' (Some (Line '''')),
         FsReadFile (VStr ''/certs/dist.p12'') (Returned [0x30, 0x82]),
         ValidateCredentialsForPlatform ''ios'' ''cert'' (Some uploadedCert) sampleMetadata
           (Returned VUndefined),
         UpdateCredentialsForPlatform ''ios'' uploadedCert sampleMetadata (Returned ()),
         EnsureAppId sampleMetadata (Returned ()),
         ConsoleLog '''',
         Asked ''managePushCertificates'' (Some (Choice 0)),
         FetchPushCertificates sampleMetadata (Returned (VBool True)),
         Publish (Returned [''exp-1'']),
         Build [''exp-1''] ''ios'' (Returned ())], [])"
  by (simp add: run_def flow_defs calm_def eval_defs sampleInfo_def
       sampleMetadata_def sampleBuilder_def operatorUploads_def uploadedCert_def
       typedAppleId_def)

lemma publishFails_run:
  "run worldPublishFails sampleBuilder [] []
     = (Thrown (Foreign ''packager is not running''),
        [CheckPackagerStatus (Returned ()), CheckStatus (Returned ()),
         GetPublishInfoAsync ''.'' (Returned sampleInfo),
         CredentialsExistForPlatformAsync sampleMetadata (Returned (Some storedBundle)),
         ValidateCredentialsForPlatform ''ios'' ''appleId'' None sampleMetadata
           (Returned VUndefined),
         ValidateCredentialsForPlatform ''ios'' ''cert'' None sampleMetadata
           (Returned VUndefined),
         EnsureAppId sampleMetadata (Returned ()),
         ValidateCredentialsForPlatform ''ios'' ''push'' None sampleMetadata
           (Returned VUndefined),
         Publish (Thrown (Foreign ''packager is not running''))], [])"
  by (simp add: run_def flow_defs worldPublishFails_def worldAllStored_def calm_def eval_defs
       sampleInfo_def sampleMetadata_def sampleBuilder_def storedBundle_def)

lemma appIdTaken_run:
  "collectAndValidateCredentials worldAppIdTaken sampleBuilder [] []
     = (Thrown (cannotCreateAppId ''com.dev.app''),
        [GetPublishInfoAsync ''.'' (Returned sampleInfo),
         CredentialsExistForPlatformAsync sampleMetadata (Returned (Some storedBundle)),
         ValidateCredentialsForPlatform ''ios'' ''appleId'' None sampleMetadata
           (Returned VUndefined),
         ValidateCredentialsForPlatform ''ios'' ''cert'' None sampleMetadata
           (Returned VUndefined),
         EnsureAppId sampleMetadata (Thrown (Foreign ''app id is taken''))], [])"
  by (simp add: flow_defs worldAppIdTaken_def worldAllStored_def calm_def eval_defs
       sampleInfo_def sampleMetadata_def sampleBuilder_def storedBundle_def)

lemma upload_run:
  "askForCerts calm sampleMetadata [] operatorPicksUpload
     = (Returned (),
        [ConsoleLog '''',
         Asked ''manageCertificates'' (Some (Choice 1)),
         Asked ''pathToP12'' (Some (Line ''missing.p12'')),
         FsStat ''/certs/missing.p12'' (Thrown (Foreign ''ENOENT'')),
         ConsoleLog (CHR 0x0A # ''File does not exist.''),
         Asked ''pathToP12'' (Some (Line ''dist.p12'')),
         FsStat ''/certs/dist.p12'' (Returned \<lparr>isFile = True\<rparr>),
         Asked ''certPassword'' (Some (Line '''')),
         FsReadFile (VStr ''/certs/dist.p12'') (Returned [0x30, 0x82]),
         ValidateCredentialsForPlatform ''ios'' ''cert'' (Some uploadedCert) sampleMetadata
           (Returned VUndefined),
         UpdateCredentialsForPlatform ''ios'' uploadedCert sampleMetadata (Returned ())], [])"
  by (simp add: flow_defs calm_def eval_defs sampleMetadata_def uploadedCert_def
       operatorPicksUpload_def)
section \<open>The claims\<close>

text \<open>
  C8. If the project configuration has no bundle identifier (the field is absent or
  empty), \<open>collectAndValidateCredentials\<close> fails with the configuration error
  \<open>INVALID_OPTIONS\<close>; the only call made is the one that read the project
  configuration, so no call to the credential store was made, no question was shown and
  no submission of the operator was consumed.
\<close>

theorem missing_bundle_identifier_fails_first:
  assumes "Exp_getPublishInfoAsync w h (projectDir this) = Returned info"
    and "\<not> truthyField (bundleIdentifierIOS info)"
  shows "collectAndValidateCredentials w this h ins =
           (Thrown missingBundleIdentifier,
            [GetPublishInfoAsync (projectDir this) (Returned info)], ins)
         \<and> code missingBundleIdentifier = INVALID_OPTIONS"
  using assms
  by (cases "bundleIdentifierIOS info")
     (simp_all add: collectAndValidateCredentials_def await_def getPublishInfoAsync_def
        call_def throw_def Let_def missingBundleIdentifier_def)

theorem missing_bundle_identifier_fails_first_witness:
  "Exp_getPublishInfoAsync worldWithoutBundleId [] (projectDir sampleBuilder)
     = Returned infoWithoutBundleId
   \<and> \<not> truthyField (bundleIdentifierIOS infoWithoutBundleId)
   \<and> collectAndValidateCredentials worldWithoutBundleId sampleBuilder [] [Line ''me@dev.io'']
     = (Thrown missingBundleIdentifier,
        [GetPublishInfoAsync ''.'' (Returned infoWithoutBundleId)], [Line ''me@dev.io''])"
proof -
  have a: "Exp_getPublishInfoAsync worldWithoutBundleId [] (projectDir sampleBuilder)
             = Returned infoWithoutBundleId"
    by (simp add: worldWithoutBundleId_def)
  have b: "\<not> truthyField (bundleIdentifierIOS infoWithoutBundleId)"
    by (simp add: infoWithoutBundleId_def)
  have c: "projectDir sampleBuilder = ''.''"
    by (simp add: sampleBuilder_def)
  from missing_bundle_identifier_fails_first[OF a b, of "[Line ''me@dev.io'']"] a b c
  show ?thesis by simp
qed

text \<open>
  C2. In the push-certificate collection flow, whenever the fetch of an auto-generated
  push certificate returned a falsy value (so no error was thrown by it), the flow ends
  by throwing the error with code \<open>CREDENTIAL_ERROR\<close> and the generic message
  "Failed fetching/uploading certificates."
\<close>

theorem push_fetch_falsy_is_fatal:
  assumes "askForPushCerts w m h ins = (r, es, ins')"
    and "FetchPushCertificates m' (Returned v) \<in> set es"
    and "\<not> truthy v"
  shows "r = Thrown (XDLError CREDENTIAL_ERROR failedFetchingUploading)"
  using assms
  by (simp add: askForPushCerts_def)
     (auto simp: run_eqs service_calls Let_def interaction_notin
       split: if_splits elim!: await_cases tryCatch_cases dest!: prompt_push_interaction)

theorem push_fetch_falsy_is_fatal_witness:
  "askForPushCerts worldPushNotValid sampleMetadata [] [Choice 0]
     = (Thrown (XDLError CREDENTIAL_ERROR failedFetchingUploading),
        [ConsoleLog '''', Asked ''managePushCertificates'' (Some (Choice 0)),
         FetchPushCertificates sampleMetadata (Returned (VBool False))], [])
   \<and> \<not> truthy (VBool False)"
proof -
  obtain r where run:
    "askForPushCerts worldPushNotValid sampleMetadata [] [Choice 0]
       = (r, [ConsoleLog '''', Asked ''managePushCertificates'' (Some (Choice 0)),
              FetchPushCertificates sampleMetadata (Returned (VBool False))], [])"
    by (simp add: askForPushCerts_def pushCertQuestions_def managePushCertificatesQ_def
          pushPathQ_def pushPasswordQ_def worldPushNotValid_def calm_def eval_defs)
  from push_fetch_falsy_is_fatal[OF run, of sampleMetadata "VBool False"] run
  show ?thesis by simp
qed

text \<open>
  C3 (as stated, refuted). The claim has every unclassified error of the certificate
  collection flow propagate "wrapped with the generic message". Here the certificate
  fetch fails with an error that is not an \<open>XDLError\<close>: the flow throws that very
  error, and its message is not the generic one.
\<close>

theorem cert_unclassified_error_not_wrapped:
  "askForCerts worldNetworkDown sampleMetadata [] [Choice 0]
     = (Thrown (Foreign ''socket hang up''),
        [ConsoleLog '''', Asked ''manageCertificates'' (Some (Choice 0)),
         FetchAppleCertificates sampleMetadata (Thrown (Foreign ''socket hang up''))], [])
   \<and> \<not> isXDLError (Foreign ''socket hang up'')
   \<and> message (Foreign ''socket hang up'') \<noteq> failedFetchingUploading"
  by (simp add: networkDown_run failedFetchingUploading_def)

text \<open>
  C3 (amended). In the certificate collection flow, an error thrown by a call of the flow
  (certificate fetch, file read, validation, update) that is not an \<open>XDLError\<close> is
  thrown on unchanged: it is not rewritten and not wrapped. An \<open>XDLError\<close> is replaced
  by a \<open>CommandError\<close> with the same code and the generic message
  "Failed fetching/uploading certificates.", or, when it comes from the validation, the
  message that the certificate is not present in the developer portal.
\<close>

theorem cert_flow_errors:
  assumes "askForCerts w m h ins = (r, es, ins')"
    and "ev \<in> set es" and "rejection ev = Some e"
  shows "r = Thrown (if isXDLError e
                     then CommandError (code e)
                            (if isValidation ev then certNotInPortal
                             else failedFetchingUploading)
                     else e)"
proof -
  from askForCerts_shape[OF assms(1)] show ?thesis
  proof cases
    case (1 pes p tail)
    from assms(2,3) 1(1) promptPhase_rejection[OF 1(2), of ev]
    have "ev \<in> set tail" by auto
    with 1(3) assms(3) show ?thesis
      by cases (auto simp: wrapGeneric_def wrapNotInPortal_def)
  qed
qed

theorem cert_flow_errors_witness:
  "fst (askForCerts worldNetworkDown sampleMetadata [] [Choice 0])
     = Thrown (Foreign ''socket hang up'')
   \<and> FetchAppleCertificates sampleMetadata (Thrown (Foreign ''socket hang up''))
       \<in> set (fst (snd (askForCerts worldNetworkDown sampleMetadata [] [Choice 0])))
   \<and> rejection (FetchAppleCertificates sampleMetadata (Thrown (Foreign ''socket hang up'')))
       = Some (Foreign ''socket hang up'')"
proof -
  let ?ev = "FetchAppleCertificates sampleMetadata (Thrown (Foreign ''socket hang up''))"
  obtain r es ins' where run:
    "askForCerts worldNetworkDown sampleMetadata [] [Choice 0] = (r, es, ins')"
    by (cases "askForCerts worldNetworkDown sampleMetadata [] [Choice 0]")
  with networkDown_run have es: "?ev \<in> set es" by simp
  have rej: "rejection ?ev = Some (Foreign ''socket hang up'')" by simp
  from cert_flow_errors[OF run es rej] run es rej show ?thesis by simp
qed

text \<open>
  C5. Whenever the re-validation of the stored Apple ID (the validation of kind
  \<open>appleId\<close> with no new data) fails, the workflow throws the error that tells the
  operator to rerun with \<open>-c\<close>, and that validation is the last thing it did: its whole
  trace is the read of the project configuration, the fetch of the stored bundle and the
  failed validation, with no event of the certificate step, of the app-id registration or
  of the push-certificate step.
\<close>

theorem stored_apple_id_invalid_stops:
  assumes "collectAndValidateCredentials w this h ins = (r, es, ins')"
    and "ValidateCredentialsForPlatform p ''appleId'' None m (Thrown e) \<in> set es"
  shows "r = Thrown storedCredentialsInvalid \<and>
         (\<exists>info existing.
            es = [GetPublishInfoAsync (projectDir this) (Returned info),
                  CredentialsExistForPlatformAsync m (Returned (Some existing)),
                  ValidateCredentialsForPlatform ''ios'' ''appleId'' None m (Thrown e)]) \<and>
         \<not> list_ex (specific Cert) es \<and> \<not> list_ex (specific Push) es \<and>
         \<not> list_ex isEnsureAppId es"
proof -
  let ?ev = "ValidateCredentialsForPlatform p ''appleId'' None m (Thrown e)"
  have rv: "kind = AppleId \<and> has" if "stepOutcome kind has s" "?ev \<in> set s" for kind has s
    using stepOutcome_revalidation[OF that, of AppleId] by simp
  have returned: False
    if "appleIdStep w a m' h' i = (Returned (), s, i')" "?ev \<in> set s" for a m' h' i s i'
  proof -
    from appleIdStep_outcome[OF that(1)] rv[OF _ that(2)] have a by blast
    with that show False by (auto simp: appleIdStep_True split: outcome.splits)
  qed
  from assms(1) show ?thesis
  proof (cases rule: collect_paths)
    case (unread out)
    with assms(2) show ?thesis by auto
  next
    case (config info)
    with assms(2) show ?thesis by auto
  next
    case (unfetched info out)
    with assms(2) show ?thesis by auto
  next
    case (appleId info existing a b c h0 s1)
    from appleId(2,3) assms(2) have in1: "?ev \<in> set s1" by auto
    from appleIdStep_outcome[OF appleId(4)] rv[OF _ in1] have a by blast
    with appleId(1) obtain x where x: "existing = Some x"
      by (cases existing) (auto simp: hasCredentials_def)
    from \<open>a\<close> appleId(4) in1 have "s1 = [ValidateCredentialsForPlatform ''ios'' ''appleId''
        None (credentialMetadataOf info) (Thrown e)]" "r = Thrown storedCredentialsInvalid"
        "m = credentialMetadataOf info"
      by (auto simp: appleIdStep_True split: outcome.splits)
    with appleId(2,3) x show ?thesis by simp
  next
    case (cert info existing a b c h0 s1 i1 s2)
    from cert(2,3) assms(2) have "?ev \<in> set s1 \<or> ?ev \<in> set s2" by auto
    with returned[OF cert(4)] certStep_outcome[OF cert(5)] rv[of Cert b s2]
    show ?thesis by blast
  next
    case (appId info existing a b c h0 s1 i1 s2 out)
    from appId(2,3) assms(2) have "?ev \<in> set s1 \<or> ?ev \<in> set s2" by auto
    with returned[OF appId(4)] certStep_outcome[OF appId(5)] rv[of Cert b s2]
    show ?thesis by blast
  next
    case (push info existing a b c h0 s1 i1 s2 i2 s3)
    from push(2,3) assms(2) have "?ev \<in> set s1 \<or> ?ev \<in> set s2 \<or> ?ev \<in> set s3" by auto
    with returned[OF push(4)] certStep_outcome[OF push(5)] rv[of Cert b s2]
      pushStep_outcome[OF push(6)] rv[of Push c s3]
    show ?thesis by blast
  qed
qed

theorem stored_apple_id_invalid_stops_witness:
  "collectAndValidateCredentials worldStoredInvalid sampleBuilder [] []
     = (Thrown storedCredentialsInvalid,
        [GetPublishInfoAsync ''.'' (Returned sampleInfo),
         CredentialsExistForPlatformAsync sampleMetadata (Returned (Some storedBundle)),
         ValidateCredentialsForPlatform ''ios'' ''appleId'' None sampleMetadata
           (Thrown serviceRejects)], [])
   \<and> \<not> list_ex isEnsureAppId
         (fst (snd (collectAndValidateCredentials worldStoredInvalid sampleBuilder [] [])))"
proof -
  let ?ev = "ValidateCredentialsForPlatform ''ios'' ''appleId'' None sampleMetadata
               (Thrown serviceRejects)"
  obtain r es ins' where run:
    "collectAndValidateCredentials worldStoredInvalid sampleBuilder [] [] = (r, es, ins')"
    by (cases "collectAndValidateCredentials worldStoredInvalid sampleBuilder [] []")
  with storedInvalid_run have "?ev \<in> set es" by simp
  from stored_apple_id_invalid_stops[OF run this] run storedInvalid_run
  show ?thesis by simp
qed

text \<open>
  C1 (as stated, refuted). The claim has one of the two flows run for every kind in every
  run, and the collection flow run for a kind whenever no bundle is stored. Here no bundle
  is stored and the service rejects the Apple ID the operator types: the workflow stops
  there, and for the certificate neither the collection flow nor the re-validate flow runs.
\<close>

theorem cert_flows_not_run_after_failure:
  "CredentialsExistForPlatformAsync sampleMetadata (Returned None)
     \<in> set (fst (snd (collectAndValidateCredentials worldAppleIdRejected sampleBuilder []
           [Line ''me@dev.io'', Line ''secret'', Line ''TEAM1''])))
   \<and> \<not> collects Cert
         (fst (snd (collectAndValidateCredentials worldAppleIdRejected sampleBuilder []
           [Line ''me@dev.io'', Line ''secret'', Line ''TEAM1''])))
   \<and> \<not> revalidates Cert
         (fst (snd (collectAndValidateCredentials worldAppleIdRejected sampleBuilder []
           [Line ''me@dev.io'', Line ''secret'', Line ''TEAM1''])))"
  by (simp add: appleIdRejected_run)

text \<open>
  C1 (amended). For each of the three kinds: in every run in which the workflow reaches
  the kind's step (the stored bundle was fetched, for the Apple ID; the Apple ID step
  ended well, for the certificate; the app id was registered, for the push certificate),
  exactly one of the two flows runs for the kind: the re-validate flow and not the
  collection flow when the clear flag is unset, a bundle was fetched and the kind's field
  of it is truthy; the collection flow and not the re-validate flow otherwise (the bundle
  is absent, the clear flag is set, or the field is falsy). In a run that does not reach
  the kind's step neither flow runs for it. So in no run do both run.
\<close>

theorem one_flow_per_reached_kind:
  assumes "collectAndValidateCredentials w this h ins = (r, es, ins')"
  shows "(reached k es \<longrightarrow>
            (\<exists>m existing. CredentialsExistForPlatformAsync m (Returned existing) \<in> set es \<and>
               (if present (clearCredentials (options this)) existing k
                then revalidates k es \<and> \<not> collects k es
                else collects k es \<and> \<not> revalidates k es))) \<and>
         (\<not> reached k es \<longrightarrow> \<not> collects k es \<and> \<not> revalidates k es)"
proof -
  from flows_summary[OF assms] show ?thesis
  proof
    assume "\<forall>k. \<not> collects k es \<and> \<not> revalidates k es \<and> \<not> reached k es"
    then show ?thesis by simp
  next
    assume "\<exists>m existing ks.
            CredentialsExistForPlatformAsync m (Returned existing) \<in> set es \<and>
            (\<forall>m' x. CredentialsExistForPlatformAsync m' (Returned x) \<in> set es \<longrightarrow>
               x = existing) \<and>
            (\<forall>k. collects k es =
                   (k \<in> set ks \<and> \<not> present (clearCredentials (options this)) existing k) \<and>
                 revalidates k es =
                   (k \<in> set ks \<and> present (clearCredentials (options this)) existing k) \<and>
                 reached k es = (k \<in> set ks))"
    then obtain m existing ks where
      "CredentialsExistForPlatformAsync m (Returned existing) \<in> set es"
      "collects k es = (k \<in> set ks \<and> \<not> present (clearCredentials (options this)) existing k)"
      "revalidates k es = (k \<in> set ks \<and> present (clearCredentials (options this)) existing k)"
      "reached k es = (k \<in> set ks)"
      by blast
    then show ?thesis by auto
  qed
qed

theorem one_flow_per_reached_kind_witness:
  "reached Push
     (fst (snd (collectAndValidateCredentials worldWithoutPush sampleBuilder [] [Choice 0])))
   \<and> collects Push
     (fst (snd (collectAndValidateCredentials worldWithoutPush sampleBuilder [] [Choice 0])))
   \<and> \<not> revalidates Push
     (fst (snd (collectAndValidateCredentials worldWithoutPush sampleBuilder [] [Choice 0])))
   \<and> \<not> reached Cert
     (fst (snd (collectAndValidateCredentials worldAppleIdRejected sampleBuilder []
        [Line ''me@dev.io'', Line ''secret'', Line ''TEAM1''])))
   \<and> \<not> collects Cert
     (fst (snd (collectAndValidateCredentials worldAppleIdRejected sampleBuilder []
        [Line ''me@dev.io'', Line ''secret'', Line ''TEAM1''])))"
proof -
  obtain r es ins' where run:
    "collectAndValidateCredentials worldWithoutPush sampleBuilder [] [Choice 0] = (r, es, ins')"
    by (cases "collectAndValidateCredentials worldWithoutPush sampleBuilder [] [Choice 0]")
  with withoutPush_run have reached: "reached Push es" by auto
  obtain r' es' ins'' where run':
    "collectAndValidateCredentials worldAppleIdRejected sampleBuilder []
        [Line ''me@dev.io'', Line ''secret'', Line ''TEAM1''] = (r', es', ins'')"
    by (cases "collectAndValidateCredentials worldAppleIdRejected sampleBuilder []
        [Line ''me@dev.io'', Line ''secret'', Line ''TEAM1'']")
  with appleIdRejected_run have unreached: "\<not> reached Cert es'"
    by (auto simp: only_def noCredentials_def)
  from one_flow_per_reached_kind[OF run, of Push] reached
    one_flow_per_reached_kind[OF run', of Cert] unreached run run' withoutPush_run
  show ?thesis by (auto simp: present_def bundleWithoutPush_def split: if_splits)
qed

text \<open>
  C10. With the clear flag unset and a bundle fetched, the three flags are the truthiness
  of \<open>appleId\<close>, \<open>certP12\<close> and \<open>pushP12\<close>, and changing \<open>password\<close>,
  \<open>teamId\<close>, \<open>certPassword\<close> or \<open>pushPassword\<close> changes none of them. In every
  run the collection flow of a kind runs only if the kind's designated field is falsy, and
  its re-validate flow only if that field is truthy.
\<close>

theorem presence_by_designated_field:
  assumes "collectAndValidateCredentials w this h ins = (r, es, ins')"
    and "\<not> clearCredentials (options this)"
    and "CredentialsExistForPlatformAsync m (Returned (Some b)) \<in> set es"
  shows "hasCredentials False (Some b) =
           (truthyField (appleId b), truthyField (certP12 b), truthyField (pushP12 b)) \<and>
         hasCredentials False
           (Some (b\<lparr>password := x1, teamId := x2, certPassword := x3, pushPassword := x4\<rparr>))
           = hasCredentials False (Some b) \<and>
         (collects k es \<longrightarrow> \<not> truthyField (designated k b)) \<and>
         (revalidates k es \<longrightarrow> truthyField (designated k b))"
proof -
  have pure: "hasCredentials False (Some b) =
           (truthyField (appleId b), truthyField (certP12 b), truthyField (pushP12 b))"
    "hasCredentials False
           (Some (b\<lparr>password := x1, teamId := x2, certPassword := x3, pushPassword := x4\<rparr>))
           = hasCredentials False (Some b)"
    by (simp_all add: hasCredentials_def)
  from flows_summary[OF assms(1)] assms(3)
  obtain ks where
      "collects k es = (k \<in> set ks \<and> \<not> present (clearCredentials (options this)) (Some b) k)"
      "revalidates k es = (k \<in> set ks \<and> present (clearCredentials (options this)) (Some b) k)"
    by (metis collects_def list_ex_iff fetchedBundle_in reached.simps(1))
  with assms(2) pure show ?thesis by (simp add: present_def)
qed

theorem presence_by_designated_field_witness:
  "\<not> clearCredentials (options sampleBuilder)
   \<and> CredentialsExistForPlatformAsync sampleMetadata (Returned (Some bundleWithoutPush))
       \<in> set (fst (snd (collectAndValidateCredentials worldWithoutPush sampleBuilder []
             [Choice 0])))
   \<and> collects Push
       (fst (snd (collectAndValidateCredentials worldWithoutPush sampleBuilder [] [Choice 0])))
   \<and> \<not> truthyField (designated Push bundleWithoutPush)
   \<and> revalidates Cert
       (fst (snd (collectAndValidateCredentials worldWithoutPush sampleBuilder [] [Choice 0])))
   \<and> truthyField (designated Cert bundleWithoutPush)"
proof -
  obtain r es ins' where run:
    "collectAndValidateCredentials worldWithoutPush sampleBuilder [] [Choice 0] = (r, es, ins')"
    by (cases "collectAndValidateCredentials worldWithoutPush sampleBuilder [] [Choice 0]")
  have flag: "\<not> clearCredentials (options sampleBuilder)" by simp
  from run withoutPush_run
  have fetched: "CredentialsExistForPlatformAsync sampleMetadata
      (Returned (Some bundleWithoutPush)) \<in> set es"
    and flows: "collects Push es" "revalidates Cert es"
    by auto
  from presence_by_designated_field[OF run flag fetched, of _ _ _ _ Push]
    presence_by_designated_field[OF run flag fetched, of _ _ _ _ Cert]
    flag fetched flows run
  show ?thesis by simp
qed


text \<open>
  C6 (as stated, refuted). The claim has the app id registered exactly once in every run.
  Here the stored Apple ID is invalid: the workflow stops at its re-validation and the
  registration is never invoked.
\<close>

theorem app_id_not_registered_after_failure:
  "length (filter isEnsureAppId
     (fst (snd (collectAndValidateCredentials worldStoredInvalid sampleBuilder [] [])))) = 0"
  by (simp add: storedInvalid_run)

text \<open>
  C6 (amended). In every run the app-id registration is invoked exactly once if the
  certificate step ended well, and not at all otherwise. When it is invoked, everything
  before it belongs to the earlier steps: the completed certificate step is there and no
  event of the push-certificate step is; everything after it is an event of the
  push-certificate step, which runs only after a registration that returned. When the
  registration does not return, nothing follows it, and when it throws, the workflow
  throws the error that tells the operator to change the bundle identifier.
\<close>

theorem app_id_registered_between:
  assumes "collectAndValidateCredentials w this h ins = (r, es, ins')"
  shows "length (filter isEnsureAppId es) = (if list_ex certDone es then 1 else 0) \<and>
         (list_ex (specific Push) es \<longrightarrow> list_ex appIdRegistered es) \<and>
         (\<forall>m out. EnsureAppId m out \<in> set es \<longrightarrow>
            (\<exists>pre post. es = pre @ EnsureAppId m out # post \<and>
               list_ex certDone pre \<and> \<not> list_ex (specific Push) pre \<and>
               list_all (stepEvent Push) post \<and>
               (out \<noteq> Returned () \<longrightarrow>
                  post = [] \<and>
                  r = (case out of
                         Thrown e \<Rightarrow> Thrown (cannotCreateAppId (bundleIdentifier m))
                       | _ \<Rightarrow> Pending))))"
  using assms
proof (cases rule: collect_paths)
  case (unread out)
  then show ?thesis by simp
next
  case (config info)
  then show ?thesis by simp
next
  case (unfetched info out)
  then show ?thesis by simp
next
  case (appleId info existing a b c h0 s1)
  note o1 = appleIdStep_outcome[OF appleId(4)]
  from o1 have s: "stepOutcome AppleId a s1" by simp
  from o1 step_facts(3)[OF s] stepOutcome_specific[OF s, of Push]
  show ?thesis
    by (auto simp: appleId(2,3) no_ensure_filter dest: no_ensure_in[rotated])
next
  case (cert info existing a b c h0 s1 i1 s2)
  note o1 = appleIdStep_outcome[OF cert(4)] and o2 = certStep_outcome[OF cert(5)]
  from o1 o2 have s: "stepOutcome AppleId a s1" "stepOutcome Cert b s2" by simp_all
  from o1 o2 cert(6) step_facts(3)[OF s(1)] step_facts(3)[OF s(2)]
    stepOutcome_specific[OF s(1), of Push] stepOutcome_specific[OF s(2), of Push]
  show ?thesis
    by (auto simp: cert(2,3) no_ensure_filter dest: no_ensure_in[rotated])
next
  case (appId info existing a b c h0 s1 i1 s2 out)
  note o1 = appleIdStep_outcome[OF appId(4)] and o2 = certStep_outcome[OF appId(5)]
  from o1 o2 have s: "stepOutcome AppleId a s1" "stepOutcome Cert b s2" by simp_all
  let ?m = "credentialMetadataOf info"
  let ?pre = "h0 @ s1 @ s2"
  have pre: "es = ?pre @ EnsureAppId ?m out # []" "list_ex certDone ?pre"
    "\<not> list_ex (specific Push) ?pre" "\<not> list_ex isEnsureAppId ?pre"
    using o1 o2 step_facts(3)[OF s(1)] step_facts(3)[OF s(2)]
      stepOutcome_specific[OF s(1), of Push] stepOutcome_specific[OF s(2), of Push]
    by (simp_all add: appId(2,3))
  have only_one: "m = ?m \<and> out' = out" if "EnsureAppId m out' \<in> set es" for m out'
    using that pre(4) unfolding pre(1) by (auto dest: no_ensure_in[rotated])
  have count: "length (filter isEnsureAppId es) = 1" "list_ex certDone es"
    using pre(2,4) unfolding pre(1) by (auto simp: no_ensure_filter)
  have push: "\<not> list_ex (specific Push) es"
    using pre(3) unfolding pre(1) by simp
  have "\<exists>pre post. es = pre @ EnsureAppId ?m out # post \<and>
               list_ex certDone pre \<and> \<not> list_ex (specific Push) pre \<and>
               list_all (stepEvent Push) post \<and>
               (out \<noteq> Returned () \<longrightarrow>
                  post = [] \<and>
                  r = (case out of
                         Thrown e \<Rightarrow> Thrown (cannotCreateAppId (bundleIdentifier ?m))
                       | _ \<Rightarrow> Pending))"
    by (rule exI[of _ ?pre], rule exI[of _ "[]"]) (use pre appId(7) in simp)
  with only_one count push show ?thesis by auto
next
  case (push info existing a b c h0 s1 i1 s2 i2 s3)
  note o1 = appleIdStep_outcome[OF push(4)] and o2 = certStep_outcome[OF push(5)]
    and o3 = pushStep_outcome[OF push(6)]
  from o1 o2 o3 have s: "stepOutcome AppleId a s1" "stepOutcome Cert b s2"
      "stepOutcome Push c s3" by simp_all
  let ?m = "credentialMetadataOf info"
  let ?pre = "h0 @ s1 @ s2"
  have pre: "es = ?pre @ EnsureAppId ?m (Returned ()) # s3" "list_ex certDone ?pre"
    "\<not> list_ex (specific Push) ?pre" "\<not> list_ex isEnsureAppId ?pre"
    "\<not> list_ex isEnsureAppId s3" "list_all (stepEvent Push) s3"
    using o1 o2 step_facts(3)[OF s(1)] step_facts(3)[OF s(2)] step_facts(3)[OF s(3)]
      stepOutcome_specific[OF s(1), of Push] stepOutcome_specific[OF s(2), of Push] s(3)
    by (simp_all add: push(2,3) stepOutcome_def)
  have only_one: "m = ?m \<and> out' = Returned ()" if "EnsureAppId m out' \<in> set es" for m out'
    using that pre(4,5) unfolding pre(1) by (auto dest: no_ensure_in[rotated])
  have count: "length (filter isEnsureAppId es) = 1" "list_ex certDone es"
      "list_ex appIdRegistered es"
    using pre(2,4,5) unfolding pre(1) by (auto simp: no_ensure_filter)
  have "\<exists>pre post. es = pre @ EnsureAppId ?m (Returned ()) # post \<and>
               list_ex certDone pre \<and> \<not> list_ex (specific Push) pre \<and>
               list_all (stepEvent Push) post"
    by (rule exI[of _ ?pre], rule exI[of _ s3]) (use pre in simp)
  with only_one count show ?thesis by auto
qed

theorem app_id_registered_between_witness:
  "EnsureAppId sampleMetadata (Thrown (Foreign ''app id is taken''))
     \<in> set (fst (snd (collectAndValidateCredentials worldAppIdTaken sampleBuilder [] [])))
   \<and> fst (collectAndValidateCredentials worldAppIdTaken sampleBuilder [] [])
       = Thrown (cannotCreateAppId ''com.dev.app'')
   \<and> list_ex (specific Push)
       (fst (snd (collectAndValidateCredentials worldWithoutPush sampleBuilder [] [Choice 0])))
   \<and> list_ex appIdRegistered
       (fst (snd (collectAndValidateCredentials worldWithoutPush sampleBuilder [] [Choice 0])))
   \<and> length (filter isEnsureAppId
       (fst (snd (collectAndValidateCredentials worldWithoutPush sampleBuilder [] [Choice 0]))))
       = 1"
proof -
  obtain r es ins' where run:
    "collectAndValidateCredentials worldAppIdTaken sampleBuilder [] [] = (r, es, ins')"
    by (cases "collectAndValidateCredentials worldAppIdTaken sampleBuilder [] []")
  with appIdTaken_run
  have taken: "EnsureAppId sampleMetadata (Thrown (Foreign ''app id is taken'')) \<in> set es"
    by auto
  obtain r' es' ins'' where run':
    "collectAndValidateCredentials worldWithoutPush sampleBuilder [] [Choice 0]
       = (r', es', ins'')"
    by (cases "collectAndValidateCredentials worldWithoutPush sampleBuilder [] [Choice 0]")
  with withoutPush_run have pushed: "list_ex (specific Push) es'" "list_ex certDone es'"
    by auto
  from app_id_registered_between[OF run] taken
  have "r = Thrown (cannotCreateAppId (bundleIdentifier sampleMetadata))" by fastforce
  moreover from app_id_registered_between[OF run'] pushed
  have "list_ex appIdRegistered es'" "length (filter isEnsureAppId es') = 1" by simp_all
  ultimately show ?thesis
    using run run' taken pushed by (simp add: sampleMetadata_def)
qed

text \<open>
  C9. In every run the project is published at most once and the build is submitted at
  most once.
  \<^item> A build is submitted only directly after a publish that returned, for the platform
    \<open>ios\<close>, and the outcome of the run is the outcome of that submission.
  \<^item> After a publish that returned, the build is submitted with exactly the identifiers
    \<open>this.publish\<close> returned, nothing follows it, and what the trace records of it is
    what \<open>this.build\<close> answered: its failure is the failure of the run.
  \<^item> A publish that does not return ends the run: what \<open>this.publish\<close> threw is
    thrown on as it is and no build is submitted.
  \<^item> A run returns only after a build that returned.
  \<^item> Whenever the two status checks and the credential workflow return, the project is
    published.
\<close>

theorem publish_then_build:
  assumes "run w this h ins = (r, es, ins')"
  shows "length (filter isPublish es) \<le> 1 \<and> length (filter isBuild es) \<le> 1 \<and>
    (\<forall>ids p out. Build ids p out \<in> set es \<longrightarrow>
       p = ''ios'' \<and> r = out \<and>
       (\<exists>pre. es = pre @ [Publish (Returned ids), Build ids p out] \<and>
          \<not> list_ex isPublish pre \<and> \<not> list_ex isBuild pre)) \<and>
    (\<forall>ids. Publish (Returned ids) \<in> set es \<longrightarrow>
       (\<exists>pre. this_publish w (h @ pre) = Returned ids \<and>
          es = pre @ [Publish (Returned ids),
                 Build ids ''ios''
                   (this_build w (h @ pre @ [Publish (Returned ids)]) ids ''ios'')])) \<and>
    (\<forall>out. Publish out \<in> set es \<and> (\<forall>ids. out \<noteq> Returned ids) \<longrightarrow>
       r = (case out of Thrown e \<Rightarrow> Thrown e | _ \<Rightarrow> Pending) \<and>
       \<not> list_ex isBuild es \<and>
       (\<exists>pre. this_publish w (h @ pre) = out \<and> es = pre @ [Publish out])) \<and>
    (r = Returned () \<longrightarrow>
       (\<exists>pre ids. es = pre @ [Publish (Returned ids), Build ids ''ios'' (Returned ())])) \<and>
    (\<forall>ces i1.
       this_checkPackagerStatus w h = Returned () \<and>
       this_checkStatus w (h @ [CheckPackagerStatus (Returned ())]) = Returned () \<and>
       collectAndValidateCredentials w this
         (h @ [CheckPackagerStatus (Returned ()), CheckStatus (Returned ())]) ins
           = (Returned (), ces, i1) \<longrightarrow>
       Publish (this_publish w
          (h @ CheckPackagerStatus (Returned ()) # CheckStatus (Returned ()) # ces)) \<in> set es)"
  using assms
proof (cases rule: run_paths)
  case (packager out)
  then show ?thesis by auto
next
  case (status out)
  then show ?thesis by auto
next
  case (credentials ces)
  from collect_guarded[OF credentials(2)]
  have n: "\<not> list_ex isPublish ces" "\<not> list_ex isBuild ces" by simp_all
  with credentials(2,3) show ?thesis
    by (auto simp: credentials(1) no_publish_in no_build_in no_publish_filter no_build_filter)
next
  case (publish ces i1 out)
  from collect_guarded[OF publish(2)]
  have n: "\<not> list_ex isPublish ces" "\<not> list_ex isBuild ces" by simp_all
  let ?pre = "CheckPackagerStatus (Returned ()) # CheckStatus (Returned ()) # ces"
  have es: "es = ?pre @ [Publish out]" by (simp add: publish(1))
  have r: "r \<noteq> Returned ()" using publish(3,4) by (cases out) auto
  have 1: "length (filter isPublish es) \<le> 1" "length (filter isBuild es) \<le> 1"
    using n by (simp_all add: es no_publish_filter no_build_filter)
  have 2: "Build ids p b \<notin> set es" for ids p b
    using n by (simp add: es no_build_in)
  have 3: "Publish (Returned ids) \<notin> set es" for ids
    using n publish(3) by (auto simp: es no_publish_in)
  have 4: "r = (case out' of Thrown e \<Rightarrow> Thrown e | _ \<Rightarrow> Pending) \<and>
       \<not> list_ex isBuild es \<and>
       (\<exists>pre. this_publish w (h @ pre) = out' \<and> es = pre @ [Publish out'])"
    if "Publish out' \<in> set es" for out'
  proof -
    from that n have "out' = out" by (simp add: es no_publish_in)
    moreover have "\<exists>pre. this_publish w (h @ pre) = out \<and> es = pre @ [Publish out]"
      using publish(5) es by (intro exI[of _ ?pre]) simp
    ultimately show ?thesis using publish(4) n by (simp add: es)
  qed
  have 6: "Publish (this_publish w
          (h @ CheckPackagerStatus (Returned ()) # CheckStatus (Returned ()) # ces')) \<in> set es"
    if "collectAndValidateCredentials w this
         (h @ [CheckPackagerStatus (Returned ()), CheckStatus (Returned ())]) ins
           = (Returned (), ces', i1')" for ces' i1'
    using that publish(2,5) by (simp add: es)
  show ?thesis
  proof (intro conjI allI impI)
    show "length (filter isPublish es) \<le> 1" "length (filter isBuild es) \<le> 1" by (fact 1)+
  next
    fix ids' p b assume a: "Build ids' p b \<in> set es"
    with 2[of ids' p b] have False by simp
    then show "p = ''ios''" "r = b"
      "\<exists>pre. es = pre @ [Publish (Returned ids'), Build ids' p b] \<and>
          \<not> list_ex isPublish pre \<and> \<not> list_ex isBuild pre" by simp_all
  next
    fix ids' assume "Publish (Returned ids') \<in> set es"
    with 3[of ids'] have False by simp
    then show "\<exists>pre. this_publish w (h @ pre) = Returned ids' \<and>
          es = pre @ [Publish (Returned ids'),
                 Build ids' ''ios''
                   (this_build w (h @ pre @ [Publish (Returned ids')]) ids' ''ios'')]"
      by simp
  next
    fix out' assume a: "Publish out' \<in> set es \<and> (\<forall>ids. out' \<noteq> Returned ids)"
    then have "Publish out' \<in> set es" by simp
    from 4[OF this] show "r = (case out' of Thrown e \<Rightarrow> Thrown e | _ \<Rightarrow> Pending)"
      "\<not> list_ex isBuild es"
      "\<exists>pre. this_publish w (h @ pre) = out' \<and> es = pre @ [Publish out']" by simp_all
  next
    assume "r = Returned ()"
    with r show "\<exists>pre ids. es = pre @ [Publish (Returned ids), Build ids ''ios'' (Returned ())]"
      by simp
  next
    fix ces' i1'
    assume "this_checkPackagerStatus w h = Returned () \<and>
       this_checkStatus w (h @ [CheckPackagerStatus (Returned ())]) = Returned () \<and>
       collectAndValidateCredentials w this
         (h @ [CheckPackagerStatus (Returned ()), CheckStatus (Returned ())]) ins
           = (Returned (), ces', i1')"
    then show "Publish (this_publish w
          (h @ CheckPackagerStatus (Returned ()) # CheckStatus (Returned ()) # ces')) \<in> set es"
      using 6 by blast
  qed
next
  case (build ces i1 ids out)
  from collect_guarded[OF build(2)]
  have n: "\<not> list_ex isPublish ces" "\<not> list_ex isBuild ces" by simp_all
  let ?pre = "CheckPackagerStatus (Returned ()) # CheckStatus (Returned ()) # ces"
  have es: "es = ?pre @ [Publish (Returned ids), Build ids ''ios'' out]"
    by (simp add: build(1))
  have pre: "\<not> list_ex isPublish ?pre" "\<not> list_ex isBuild ?pre" using n by simp_all
  have 1: "length (filter isPublish es) \<le> 1" "length (filter isBuild es) \<le> 1"
    using n by (simp_all add: es no_publish_filter no_build_filter)
  have 2: "p = ''ios'' \<and> r = b \<and>
       (\<exists>pre. es = pre @ [Publish (Returned ids'), Build ids' p b] \<and>
          \<not> list_ex isPublish pre \<and> \<not> list_ex isBuild pre)"
    if "Build ids' p b \<in> set es" for ids' p b
  proof -
    from that n have "ids' = ids \<and> p = ''ios'' \<and> b = out" by (simp add: es no_build_in)
    moreover have "\<exists>pre. es = pre @ [Publish (Returned ids), Build ids ''ios'' out] \<and>
          \<not> list_ex isPublish pre \<and> \<not> list_ex isBuild pre"
      using es pre by (intro exI[of _ ?pre]) simp
    ultimately show ?thesis using build(4) by simp
  qed
  have 3: "\<exists>pre. this_publish w (h @ pre) = Returned ids' \<and>
          es = pre @ [Publish (Returned ids'),
                 Build ids' ''ios''
                   (this_build w (h @ pre @ [Publish (Returned ids')]) ids' ''ios'')]"
    if "Publish (Returned ids') \<in> set es" for ids'
  proof -
    from that n have "ids' = ids" by (simp add: es no_publish_in)
    moreover have "\<exists>pre. this_publish w (h @ pre) = Returned ids \<and>
          es = pre @ [Publish (Returned ids),
                 Build ids ''ios''
                   (this_build w (h @ pre @ [Publish (Returned ids)]) ids ''ios'')]"
      using es build(3,5) by (intro exI[of _ ?pre]) simp
    ultimately show ?thesis by simp
  qed
  have 4: "out' = Returned ids" if "Publish out' \<in> set es" for out'
    using that n by (simp add: es no_publish_in)
  have 5: "\<exists>pre ids. es = pre @ [Publish (Returned ids), Build ids ''ios'' (Returned ())]"
    if "r = Returned ()"
    using that build(4) es by (intro exI[of _ ?pre] exI[of _ ids]) simp
  have 6: "Publish (this_publish w
          (h @ CheckPackagerStatus (Returned ()) # CheckStatus (Returned ()) # ces')) \<in> set es"
    if "collectAndValidateCredentials w this
         (h @ [CheckPackagerStatus (Returned ()), CheckStatus (Returned ())]) ins
           = (Returned (), ces', i1')" for ces' i1'
    using that build(2,3) by (simp add: es)
  show ?thesis
  proof (intro conjI allI impI)
    show "length (filter isPublish es) \<le> 1" "length (filter isBuild es) \<le> 1" by (fact 1)+
  next
    fix ids' p b assume a: "Build ids' p b \<in> set es"
    note b = 2[OF a]
    from b show "p = ''ios''" by (rule conjunct1)
    from b show "r = b" by (rule conjunct1[OF conjunct2])
    from b show "\<exists>pre. es = pre @ [Publish (Returned ids'), Build ids' p b] \<and>
          \<not> list_ex isPublish pre \<and> \<not> list_ex isBuild pre"
      by (rule conjunct2[OF conjunct2])
  next
    fix ids' assume "Publish (Returned ids') \<in> set es"
    then show "\<exists>pre. this_publish w (h @ pre) = Returned ids' \<and>
          es = pre @ [Publish (Returned ids'),
                 Build ids' ''ios''
                   (this_build w (h @ pre @ [Publish (Returned ids')]) ids' ''ios'')]"
      by (rule 3)
  next
    fix out' assume a: "Publish out' \<in> set es \<and> (\<forall>ids. out' \<noteq> Returned ids)"
    with 4[of out'] have False by simp
    then show "r = (case out' of Thrown e \<Rightarrow> Thrown e | _ \<Rightarrow> Pending)"
      "\<not> list_ex isBuild es"
      "\<exists>pre. this_publish w (h @ pre) = out' \<and> es = pre @ [Publish out']" by simp_all
  next
    assume "r = Returned ()"
    then show "\<exists>pre ids. es = pre @ [Publish (Returned ids), Build ids ''ios'' (Returned ())]"
      by (rule 5)
  next
    fix ces' i1'
    assume "this_checkPackagerStatus w h = Returned () \<and>
       this_checkStatus w (h @ [CheckPackagerStatus (Returned ())]) = Returned () \<and>
       collectAndValidateCredentials w this
         (h @ [CheckPackagerStatus (Returned ()), CheckStatus (Returned ())]) ins
           = (Returned (), ces', i1')"
    then show "Publish (this_publish w
          (h @ CheckPackagerStatus (Returned ()) # CheckStatus (Returned ()) # ces')) \<in> set es"
      using 6 by blast
  qed
qed

theorem publish_then_build_witness:
  "Build [''exp-1''] ''ios'' (Returned ())
     \<in> set (fst (snd (run calm sampleBuilder [] operatorUploads)))
   \<and> fst (run calm sampleBuilder [] operatorUploads) = Returned ()
   \<and> (\<exists>pre. this_publish calm ([] @ pre) = Returned [''exp-1''] \<and>
         fst (snd (run calm sampleBuilder [] operatorUploads))
           = pre @ [Publish (Returned [''exp-1'']),
                Build [''exp-1''] ''ios''
                  (this_build calm ([] @ pre @ [Publish (Returned [''exp-1''])])
                     [''exp-1''] ''ios'')])
   \<and> Publish (Thrown (Foreign ''packager is not running''))
       \<in> set (fst (snd (run worldPublishFails sampleBuilder [] [])))
   \<and> fst (run worldPublishFails sampleBuilder [] []) = Thrown (Foreign ''packager is not running'')
   \<and> \<not> list_ex isBuild (fst (snd (run worldPublishFails sampleBuilder [] [])))"
proof -
  obtain r es ins' where run: "run calm sampleBuilder [] operatorUploads = (r, es, ins')"
    by (cases "run calm sampleBuilder [] operatorUploads")
  with calm_run have built: "Build [''exp-1''] ''ios'' (Returned ()) \<in> set es"
    and published: "Publish (Returned [''exp-1'']) \<in> set es" by auto
  obtain r' es' ins'' where run': "run worldPublishFails sampleBuilder [] [] = (r', es', ins'')"
    by (cases "run worldPublishFails sampleBuilder [] []")
  with publishFails_run
  have failed: "Publish (Thrown (Foreign ''packager is not running'')) \<in> set es' \<and>
      (\<forall>ids. Thrown (Foreign ''packager is not running'') \<noteq> Returned ids)" by auto
  note t = publish_then_build[OF run]
  note t' = publish_then_build[OF run']
  from t[THEN conjunct2, THEN conjunct2, THEN conjunct1, rule_format, OF built]
  have 1: "r = Returned ()" by (rule conjunct1[OF conjunct2])
  from t[THEN conjunct2, THEN conjunct2, THEN conjunct2, THEN conjunct1, rule_format,
      OF published]
  have 2: "\<exists>pre. this_publish calm ([] @ pre) = Returned [''exp-1''] \<and>
         es = pre @ [Publish (Returned [''exp-1'']),
                Build [''exp-1''] ''ios''
                  (this_build calm ([] @ pre @ [Publish (Returned [''exp-1''])])
                     [''exp-1''] ''ios'')]" .
  from t'[THEN conjunct2, THEN conjunct2, THEN conjunct2, THEN conjunct2, THEN conjunct1,
      rule_format, OF failed]
  have 3: "r' = Thrown (Foreign ''packager is not running'')" "\<not> list_ex isBuild es'"
    by simp_all
  from 1 2 3 built failed show ?thesis unfolding run run' fst_conv snd_conv
    by (intro conjI) (assumption | erule conjunct1)+
qed

text \<open>
  C7. In the certificate flow, whatever the operator types and whatever the world answers,
  the trace keeps the discipline of the path question:
  \<^item> the path handed on is the tilde expansion of the line typed, resolved when that is
    not absolute;
  \<^item> every file check is made on the transform of a line typed at the question
    \<open>pathToP12\<close>;
  \<^item> after a check that found something other than a regular file the question is asked
    again at once, and after a check that threw it is asked again after the console
    message;
  \<^item> a file is read only at a path whose check found a regular file;
  \<^item> credentials are validated or stored only when their certificate is the encoding of
    what was read from such a file.

  The order of transform and validation and the asking again are those of the prompt
  subsystem as the specification describes it; the transform, the check and the use of
  the answer are those of \<open>askForCerts\<close>.
\<close>

theorem operator_path_checked_before_use:
  assumes "askForCerts w m h ins = (r, es, ins')"
  shows "pathDiscipline w es \<and>
    (\<forall>l. filterP12Path w l =
       (if path_isAbsolute w (untildify w l) then untildify w l
        else path_resolve w (untildify w l))) \<and>
    (\<forall>pre p out post. es = pre @ FsStat p out # post \<longrightarrow>
       (\<exists>l. p = filterP12Path w l \<and> Asked ''pathToP12'' (Some (Line l)) \<in> set pre)) \<and>
    (\<forall>pre p stats post. es = pre @ FsStat p (Returned stats) # post \<longrightarrow> \<not> isFile stats \<longrightarrow>
       (\<exists>x rest. post = Asked ''pathToP12'' x # rest)) \<and>
    (\<forall>pre p e post. es = pre @ FsStat p (Thrown e) # post \<longrightarrow>
       (\<exists>l x rest. post = ConsoleLog l # Asked ''pathToP12'' x # rest)) \<and>
    (\<forall>pre v out post. es = pre @ FsReadFile v out # post \<longrightarrow>
       (\<exists>l stats. v = VStr (filterP12Path w l) \<and> isFile stats \<and>
          Asked ''pathToP12'' (Some (Line l)) \<in> set pre \<and>
          FsStat (filterP12Path w l) (Returned stats) \<in> set pre)) \<and>
    (\<forall>pre pl k c m' out out' post.
       es = pre @ ValidateCredentialsForPlatform pl k (Some c) m' out # post \<or>
       es = pre @ UpdateCredentialsForPlatform pl c m' out' # post \<longrightarrow>
       (\<exists>l stats d. isFile stats \<and>
          Asked ''pathToP12'' (Some (Line l)) \<in> set pre \<and>
          FsStat (filterP12Path w l) (Returned stats) \<in> set pre \<and>
          FsReadFile (VStr (filterP12Path w l)) (Returned d) \<in> set pre \<and>
          certP12 c = Some (Buffer_toBase64 w d)))"
proof -
  from askForCerts_path[OF assms] have d: "pathDiscipline w es" .
  have f: "filterP12Path w l =
       (if path_isAbsolute w (untildify w l) then untildify w l
        else path_resolve w (untildify w l))" for l
    by (simp add: filterP12Path_def Let_def)
  from d have c: "\<exists>l. p = filterP12Path w l \<and> Asked ''pathToP12'' (Some (Line l)) \<in> set pre"
    if "es = pre @ FsStat p out # post" for pre p out post
    using that discipline_check[of w pre p out post] by simp
  from d have n: "\<exists>x rest. post = Asked ''pathToP12'' x # rest"
    if "es = pre @ FsStat p (Returned stats) # post" "\<not> isFile stats" for pre p stats post
    using that discipline_not_a_file[of w pre p stats post] by simp
  from d have t: "\<exists>l x rest. post = ConsoleLog l # Asked ''pathToP12'' x # rest"
    if "es = pre @ FsStat p (Thrown e) # post" for pre p e post
    using that discipline_check_threw[of w pre p e post] by simp
  from d have rd: "\<exists>l stats. v = VStr (filterP12Path w l) \<and> isFile stats \<and>
          Asked ''pathToP12'' (Some (Line l)) \<in> set pre \<and>
          FsStat (filterP12Path w l) (Returned stats) \<in> set pre"
    if "es = pre @ FsReadFile v out # post" for pre v out post
    using that discipline_read[of w pre v out post] by simp
  from d have u: "\<exists>l stats d. isFile stats \<and>
          Asked ''pathToP12'' (Some (Line l)) \<in> set pre \<and>
          FsStat (filterP12Path w l) (Returned stats) \<in> set pre \<and>
          FsReadFile (VStr (filterP12Path w l)) (Returned d) \<in> set pre \<and>
          certP12 c = Some (Buffer_toBase64 w d)"
    if "es = pre @ ValidateCredentialsForPlatform pl k (Some c) m' out # post \<or>
        es = pre @ UpdateCredentialsForPlatform pl c m' out' # post"
    for pre pl k c m' out out' post
    using that discipline_validate[of w pre pl k c m' out post]
      discipline_update[of w pre pl c m' out' post] by auto
  show ?thesis
  proof (intro conjI allI impI)
    show "pathDiscipline w es" by (fact d)
  next
    fix l
    show "filterP12Path w l =
       (if path_isAbsolute w (untildify w l) then untildify w l
        else path_resolve w (untildify w l))" by (fact f)
  next
    fix pre p out post
    assume "es = pre @ FsStat p out # post"
    then show "\<exists>l. p = filterP12Path w l \<and> Asked ''pathToP12'' (Some (Line l)) \<in> set pre"
      by (rule c)
  next
    fix pre p stats post
    assume "es = pre @ FsStat p (Returned stats) # post" "\<not> isFile stats"
    then show "\<exists>x rest. post = Asked ''pathToP12'' x # rest" by (rule n)
  next
    fix pre p e post
    assume "es = pre @ FsStat p (Thrown e) # post"
    then show "\<exists>l x rest. post = ConsoleLog l # Asked ''pathToP12'' x # rest" by (rule t)
  next
    fix pre v out post
    assume "es = pre @ FsReadFile v out # post"
    then show "\<exists>l stats. v = VStr (filterP12Path w l) \<and> isFile stats \<and>
          Asked ''pathToP12'' (Some (Line l)) \<in> set pre \<and>
          FsStat (filterP12Path w l) (Returned stats) \<in> set pre" by (rule rd)
  next
    fix pre pl k c m' out out' post
    assume "es = pre @ ValidateCredentialsForPlatform pl k (Some c) m' out # post \<or>
        es = pre @ UpdateCredentialsForPlatform pl c m' out' # post"
    then show "\<exists>l stats d. isFile stats \<and>
          Asked ''pathToP12'' (Some (Line l)) \<in> set pre \<and>
          FsStat (filterP12Path w l) (Returned stats) \<in> set pre \<and>
          FsReadFile (VStr (filterP12Path w l)) (Returned d) \<in> set pre \<and>
          certP12 c = Some (Buffer_toBase64 w d)" by (rule u)
  qed
qed

theorem operator_path_checked_before_use_witness:
  "askForCerts calm sampleMetadata [] operatorPicksUpload
     = (Returned (),
        [ConsoleLog '''',
         Asked ''manageCertificates'' (Some (Choice 1)),
         Asked ''pathToP12'' (Some (Line ''missing.p12'')),
         FsStat ''/certs/missing.p12'' (Thrown (Foreign ''ENOENT'')),
         ConsoleLog (CHR 0x0A # ''File does not exist.''),
         Asked ''pathToP12'' (Some (Line ''dist.p12'')),
         FsStat ''/certs/dist.p12'' (Returned \<lparr>isFile = True\<rparr>),
         Asked ''certPassword'' (Some (Line '''')),
         FsReadFile (VStr ''/certs/dist.p12'') (Returned [0x30, 0x82]),
         ValidateCredentialsForPlatform ''ios'' ''cert'' (Some uploadedCert) sampleMetadata
           (Returned VUndefined),
         UpdateCredentialsForPlatform ''ios'' uploadedCert sampleMetadata (Returned ())], [])
   \<and> pathDiscipline calm
         (fst (snd (askForCerts calm sampleMetadata [] operatorPicksUpload)))
   \<and> (\<exists>l stats. VStr ''/certs/dist.p12'' = VStr (filterP12Path calm l) \<and> isFile stats \<and>
         Asked ''pathToP12'' (Some (Line l))
           \<in> set (take 8 (fst (snd (askForCerts calm sampleMetadata [] operatorPicksUpload)))) \<and>
         FsStat (filterP12Path calm l) (Returned stats)
           \<in> set (take 8 (fst (snd (askForCerts calm sampleMetadata [] operatorPicksUpload)))))"
proof -
  obtain r es ins' where
    run: "askForCerts calm sampleMetadata [] operatorPicksUpload = (r, es, ins')"
    by (cases "askForCerts calm sampleMetadata [] operatorPicksUpload")
  note t = operator_path_checked_before_use[OF run]
  from run have split: "es = take 8 es @
      FsReadFile (VStr ''/certs/dist.p12'') (Returned [0x30, 0x82]) # drop 9 es"
    by (auto simp: upload_run)
  from t have d: "pathDiscipline calm es" by (rule conjunct1)
  from t[THEN conjunct2, THEN conjunct2, THEN conjunct2, THEN conjunct2, THEN conjunct2,
      THEN conjunct1, rule_format, OF split]
  have "\<exists>l stats. VStr ''/certs/dist.p12'' = VStr (filterP12Path calm l) \<and> isFile stats \<and>
         Asked ''pathToP12'' (Some (Line l)) \<in> set (take 8 es) \<and>
         FsStat (filterP12Path calm l) (Returned stats) \<in> set (take 8 es)" .
  with d run upload_run show ?thesis by auto
qed

end
